theory Spec2Isabelle
  imports Complex_Main "HOL-Library.Log_Nat"
begin

section \<open>Python exceptions\<close>

text \<open>
  Every way in which \<^verbatim>\<open>Solver.solve\<close> (src/python/w2dyn_cthyb/solver.py) can stop
  without returning is a value of this type. \<open>SystemExit\<close> is what the builtin
  \<^verbatim>\<open>exit()\<close> raises; \<open>AssertionError\<close> carries the message of the failing
  \<^verbatim>\<open>assert\<close>.
\<close>

datatype error =
    KeyError string
  | ValueError string
  | AssertionError string
  | IndexError
  | ZeroDivisionError
  | NameError string
  | NotImplementedError
  | TypeError
  | OverflowError
  | SystemExit
  | EngineFailure string

section \<open>numpy arrays\<close>

text \<open>
  An \<^verbatim>\<open>ndarray\<close> is its shape and its elements in C (row-major) order, the order
  \<^verbatim>\<open>reshape\<close> keeps. \<open>ravel\<close> is the flat position of a multi-index and
  \<open>unravel\<close> the multi-index of a flat position.
\<close>

record 'a ndarray =
  shape :: "nat list"
  data :: "'a list"

definition wf_nd :: "'a ndarray \<Rightarrow> bool" where
  "wf_nd a = (length (data a) = prod_list (shape a))"

fun ravel :: "nat list \<Rightarrow> nat list \<Rightarrow> nat" where
  "ravel (d # ds) (i # is) = i * prod_list ds + ravel ds is"
| "ravel _ _ = 0"

fun unravel :: "nat list \<Rightarrow> nat \<Rightarrow> nat list" where
  "unravel [] k = []"
| "unravel (d # ds) k = (k div prod_list ds) # unravel ds (k mod prod_list ds)"

definition in_bounds :: "nat list \<Rightarrow> nat list \<Rightarrow> bool" where
  "in_bounds shp idx = list_all2 (\<lambda>i d. i < d) idx shp"

definition nd_get :: "'a ndarray \<Rightarrow> nat list \<Rightarrow> 'a" where
  "nd_get a idx = data a ! ravel (shape a) idx"

definition nd_zeros :: "nat list \<Rightarrow> 'a::zero ndarray" where
  "nd_zeros shp = \<lparr>shape = shp, data = replicate (prod_list shp) 0\<rparr>"

definition reshape :: "'a ndarray \<Rightarrow> nat list \<Rightarrow> error + 'a ndarray" where
  "reshape a shp =
     (if prod_list shp = prod_list (shape a) then Inr (a\<lparr>shape := shp\<rparr>)
      else Inl (ValueError ''cannot reshape array''))"

fun index_of :: "nat list \<Rightarrow> nat \<Rightarrow> nat" where
  "index_of [] q = 0"
| "index_of (p # ps) q = (if p = q then 0 else Suc (index_of ps q))"

definition transpose_nd :: "'a ndarray \<Rightarrow> nat list \<Rightarrow> 'a ndarray" where
  "transpose_nd a axes =
     (let shp = map (\<lambda>p. shape a ! p) axes
      in \<lparr>shape = shp,
          data = map (\<lambda>k. let j = unravel shp k
                           in data a ! ravel (shape a)
                                (map (\<lambda>q. j ! index_of axes q) [0..<length axes]))
                   [0..<prod_list shp]\<rparr>)"

definition nd_neg :: "'a::uminus ndarray \<Rightarrow> 'a ndarray" where
  "nd_neg a = a\<lparr>data := map uminus (data a)\<rparr>"

definition nd_real :: "complex ndarray \<Rightarrow> real ndarray" where
  "nd_real a = \<lparr>shape = shape a, data = map Re (data a)\<rparr>"

text \<open>\<^verbatim>\<open>a[::-1, ...]\<close>: the array read backwards along its first axis.\<close>

definition flip_axis0 :: "'a ndarray \<Rightarrow> 'a ndarray" where
  "flip_axis0 a =
     a\<lparr>data := map (\<lambda>k. case unravel (shape a) k of
                          [] \<Rightarrow> data a ! k
                        | i # rest \<Rightarrow> data a ! ravel (shape a) ((hd (shape a) - 1 - i) # rest))
                 [0..<prod_list (shape a)]\<rparr>"

text \<open>
  \<^verbatim>\<open>a[p1, .., pm, ...]\<close> for a multi-index prefix: the sub-array read
  (\<open>get_sub\<close>) and assigned (\<open>set_sub\<close>, the value having the shape of the
  sub-array).
\<close>

definition get_sub :: "'a ndarray \<Rightarrow> nat list \<Rightarrow> 'a ndarray" where
  "get_sub a p =
     (let rest = drop (length p) (shape a); r = prod_list rest;
          off = ravel (take (length p) (shape a)) p * r
      in \<lparr>shape = rest, data = map (\<lambda>k. data a ! (off + k)) [0..<r]\<rparr>)"

definition set_sub :: "'a ndarray \<Rightarrow> nat list \<Rightarrow> 'a list \<Rightarrow> 'a ndarray" where
  "set_sub a p v =
     (let r = prod_list (drop (length p) (shape a));
          off = ravel (take (length p) (shape a)) p * r
      in a\<lparr>data := map (\<lambda>k. if off \<le> k \<and> k < off + r then v ! (k - off) else data a ! k)
                     [0..<length (data a)]\<rparr>)"

section \<open>TensorIndexMapper: the tensors handed to the engine\<close>

text \<open>
  Lines 146-149. \<open>U_ijkl\<close> is the result of
  \<^verbatim>\<open>dict_to_matrix(extract_U_dict4(h_int), self.gf_struct)\<close> (TRIQS, outside the
  repository); the function returns \<^verbatim>\<open>self.norb\<close> and the permuted tensor.
\<close>

definition U_transform :: "'a ndarray \<Rightarrow> error + nat \<times> 'a ndarray" where
  "U_transform U_ijkl =
     (case shape U_ijkl of
        [] \<Rightarrow> Inl IndexError
      | d # _ \<Rightarrow>
          let norb = d div 2 in
          (case reshape U_ijkl [2, norb, 2, norb, 2, norb, 2, norb] of
             Inl e \<Rightarrow> Inl e
           | Inr U1 \<Rightarrow>
               (case reshape (transpose_nd U1 [1, 0, 3, 2, 5, 4, 7, 6])
                       [norb * 2, norb * 2, norb * 2, norb * 2] of
                  Inl e \<Rightarrow> Inl e
                | Inr U3 \<Rightarrow> Inr (norb, U3))))"

text \<open>
  Lines 166-167: \<^verbatim>\<open>Delta_bl.data[:] = -Delta_bl.data[::-1,...]\<close> for every block of
  \<^verbatim>\<open>self.Delta_tau\<close>; a block is its name and its data of shape (Ntau, n, n).
\<close>

definition hole_propagator :: "(string \<times> 'a::uminus ndarray) list \<Rightarrow> (string \<times> 'a ndarray) list" where
  "hole_propagator Delta_tau = map (\<lambda>(bl, Delta_bl). (bl, nd_neg (flip_axis0 Delta_bl))) Delta_tau"

text \<open>The AssertionError of line 173.\<close>

definition orbital_mismatch :: error where
  "orbital_mismatch = AssertionError ''number of orbitals of U_ijkl and t_ij does not match''"

text \<open>
  Lines 169-176: the sign of the hopping matrix, the orbital-count assertion, and the
  (f,f) to (o,s,o,s) layout. \<^verbatim>\<open>int(t_ij_matrix.shape[0]/2)\<close> is the float quotient
  truncated, which for a dimension is \<open>div 2\<close>.
\<close>

definition t_transform :: "nat \<Rightarrow> 'a::uminus ndarray \<Rightarrow> error + 'a ndarray" where
  "t_transform norb t_ij_matrix =
     (let t1 = nd_neg t_ij_matrix in
      case shape t1 of
        [] \<Rightarrow> Inl IndexError
      | d # _ \<Rightarrow>
          if d div 2 \<noteq> norb then Inl orbital_mismatch
          else (case reshape t1 [2, norb, 2, norb] of
                  Inl e \<Rightarrow> Inl e
                | Inr t2 \<Rightarrow> Inr (transpose_nd t2 [1, 0, 3, 2])))"

section \<open>ResultConverter: the diagonal-fill expansion\<close>

text \<open>
  \<^verbatim>\<open>bs_diagflat\<close>, lines 666-678. An array of rank below two has no
  \<^verbatim>\<open>shape[0]\<close> or \<^verbatim>\<open>shape[1]\<close> (IndexError), except that the inner
  loop is never entered when the only axis is empty.
\<close>

definition bs_diagflat :: "'a::zero ndarray \<Rightarrow> error + 'a ndarray" where
  "bs_diagflat bs_array =
     (let bsbs_shape = take 2 (shape bs_array) @ shape bs_array;
          bsbs_array = nd_zeros bsbs_shape
      in case shape bs_array of
           [] \<Rightarrow> Inl IndexError
         | [B] \<Rightarrow> if B = 0 then Inr bsbs_array else Inl IndexError
         | B # S # _ \<Rightarrow>
             Inr (fold (\<lambda>b. fold (\<lambda>s arr. set_sub arr [b, s, b, s] (data (get_sub bs_array [b, s])))
                              [0..<S])
                    [0..<B] bsbs_array))"

text \<open>
  The inverse direction, in the words of the specification (the source has no such
  function): the diagonal \<^verbatim>\<open>a[b, s, b, s, ...]\<close> of a (band, spin, band, spin, ...)
  array, as a (band, spin, ...) array.
\<close>

definition bs_diagonal :: "'a ndarray \<Rightarrow> 'a ndarray" where
  "bs_diagonal a =
     (case shape a of
        B # S # _ # _ # rest \<Rightarrow>
          \<lparr>shape = B # S # rest,
           data = map (\<lambda>k. case unravel (B # S # rest) k of
                              b # s # r \<Rightarrow> nd_get a (b # s # b # s # r)
                            | _ \<Rightarrow> nd_get a [])
                    [0..<prod_list (B # S # rest)]\<rparr>
      | _ \<Rightarrow> a)"

section \<open>The engine configuration\<close>

text \<open>
  \<^verbatim>\<open>cfg\<close> is a two-level dictionary; the sections written by \<^verbatim>\<open>solve\<close> are
  \<^verbatim>\<open>General\<close> and \<^verbatim>\<open>QMC\<close>. A section is an association list in insertion order,
  \<open>dict_set\<close> is \<^verbatim>\<open>d[key] = value\<close> and \<open>dict_get\<close> is \<^verbatim>\<open>d[key]\<close>.
  A component of \<^verbatim>\<open>WormComponents\<close> is an integer or a band-spin tuple.
\<close>

datatype wormcomp = CompIndex int | CompBS "int list"

datatype cfgval = IntV int | FloatV real | CompsV "wormcomp list" | StrV string

type_synonym cfg_section = "(string \<times> cfgval) list"

record config =
  General :: cfg_section
  QMC :: cfg_section

fun dict_set :: "(string \<times> 'v) list \<Rightarrow> string \<Rightarrow> 'v \<Rightarrow> (string \<times> 'v) list" where
  "dict_set [] key v = [(key, v)]"
| "dict_set ((k, w) # d) key v = (if k = key then (k, v) # d else (k, w) # dict_set d key v)"

definition dict_get :: "(string \<times> 'v) list \<Rightarrow> string \<Rightarrow> error + 'v" where
  "dict_get d key = (case map_of d key of None \<Rightarrow> Inl (KeyError key) | Some v \<Rightarrow> Inr v)"

definition set_QMC :: "string \<Rightarrow> cfgval \<Rightarrow> config \<Rightarrow> config" where
  "set_QMC key v cfg = cfg\<lparr>QMC := dict_set (QMC cfg) key v\<rparr>"

definition set_General :: "string \<Rightarrow> cfgval \<Rightarrow> config \<Rightarrow> config" where
  "set_General key v cfg = cfg\<lparr>General := dict_set (General cfg) key v\<rparr>"

text \<open>\<^verbatim>\<open>value == n\<close> and the number a value stands for (Python compares numbers across int and float).\<close>

fun py_eq_int :: "cfgval \<Rightarrow> int \<Rightarrow> bool" where
  "py_eq_int (IntV i) n = (i = n)"
| "py_eq_int (FloatV x) n = (x = of_int n)"
| "py_eq_int _ n = False"

fun num_of :: "cfgval \<Rightarrow> error + real" where
  "num_of (IntV i) = Inr (of_int i)"
| "num_of (FloatV x) = Inr x"
| "num_of _ = Inl TypeError"

section \<open>Python floats\<close>

text \<open>
  A float is an IEEE binary64 number, here the real it stands for. \<open>pow2 e\<close> is the
  power of two with exponent \<open>e\<close>, and \<open>binary_exponent x\<close>, for \<open>x > 0\<close>, the \<open>e\<close> with
  \<open>pow2 e \<le> x < pow2 (e + 1)\<close>. \<open>round_double\<close> rounds a real to the nearest
  binary64 number, ties to the even significand: 53 significant bits, and below
  \<open>pow2 (- 1022)\<close> the fixed spacing \<open>pow2 (- 1074)\<close> of the subnormal numbers. A
  result of magnitude \<open>2 ^ 1024\<close> or more, that is of binary exponent 1024 or more,
  stands for an infinity: \<open>overflows\<close>.
\<close>

definition pow2 :: "int \<Rightarrow> real" where
  "pow2 e = (if 0 \<le> e then 2 ^ nat e else 1 / 2 ^ nat (- e))"

definition binary_exponent :: "real \<Rightarrow> int" where
  "binary_exponent x = (if 1 \<le> x then bitlen \<lfloor>x\<rfloor> - 1 else - bitlen (\<lceil>1 / x\<rceil> - 1))"

definition round_half_even :: "real \<Rightarrow> int" where
  "round_half_even r =
     (let f = \<lfloor>r\<rfloor>; d = r - of_int f
      in if d < 1 / 2 then f else if 1 / 2 < d then f + 1 else if even f then f else f + 1)"

definition ulp :: "real \<Rightarrow> real" where
  "ulp x = pow2 (max (binary_exponent \<bar>x\<bar>) (- 1022) - 52)"

definition round_double :: "real \<Rightarrow> real" where
  "round_double x = (if x = 0 then 0 else of_int (round_half_even (x / ulp x)) * ulp x)"

definition overflows :: "real \<Rightarrow> bool" where
  "overflows x = (x \<noteq> 0 \<and> 1024 \<le> binary_exponent \<bar>x\<bar>)"

text \<open>
  \<^verbatim>\<open>float(x)\<close> of a number, also the conversion of an \<^verbatim>\<open>int\<close> operand of a float
  division: the nearest float, and OverflowError for an \<^verbatim>\<open>int\<close> beyond the range.
\<close>

definition to_float :: "real \<Rightarrow> error + real" where
  "to_float x =
     (let y = round_double x in if overflows y then Inl OverflowError else Inr y)"

text \<open>\<^verbatim>\<open>x / y\<close> of two floats: ZeroDivisionError, or the rounded quotient.\<close>

definition float_div :: "real \<Rightarrow> real \<Rightarrow> error + real" where
  "float_div x y = (if y = 0 then Inl ZeroDivisionError else Inr (round_double (x / y)))"

text \<open>
  \<^verbatim>\<open>int(x)\<close> of a float truncates towards zero; an infinity raises OverflowError.
\<close>

definition py_int :: "real \<Rightarrow> error + int" where
  "py_int x =
     (if overflows x then Inl OverflowError
      else Inr (if 0 \<le> x then \<lfloor>x\<rfloor> else \<lceil>x\<rceil>))"

text \<open>\<^verbatim>\<open>sub in s\<close> for strings.\<close>

fun contains :: "string \<Rightarrow> string \<Rightarrow> bool" where
  "contains sub [] = (sub = [])"
| "contains sub (c # cs) = (take (length sub) (c # cs) = sub \<or> contains sub cs)"

section \<open>The solver object, the arguments of a call and the collaborators\<close>

text \<open>
  The fields of \<^verbatim>\<open>self\<close> that \<^verbatim>\<open>solve\<close> reads (constructor, lines 49-87).
\<close>

record solver =
  beta :: real
  n_iw :: nat
  n_tau :: nat
  n_l :: nat
  delta_interface :: bool
  complex_mode :: bool

text \<open>
  The keyword arguments as lines 108-135 pop them, defaults applied
  (\<open>default_args\<close>). \<^verbatim>\<open>n_cycles\<close> and \<^verbatim>\<open>h_int\<close> (and \<^verbatim>\<open>h_0\<close> with
  the delta interface) have no default: a call without them stops with KeyError on
  lines 108-122, before anything below. \<open>cfg_qmc\<close> is \<open>None\<close> when the key is absent,
  which line 273 tells apart from an empty dictionary.
\<close>

record args =
  n_cycles :: int
  n_warmup_cycles :: int
  max_time :: real
  worm :: bool
  percentageworminsert :: real
  percentagewormreplace :: real
  wormcomponents :: "int list option"
  length_cycle :: int
  random_seed :: int
  move_double :: bool
  measure_G_l :: bool
  measure_G_tau :: bool
  measure_pert_order :: bool
  statesampling :: bool
  flavourchange_moves :: bool
  move_global_prob :: real
  measure_g4iw_ph :: bool
  n4iwf :: int
  measure_G2_n_bosonic :: int
  cfg_qmc :: "cfg_section option"

definition default_args :: "int \<Rightarrow> args" where
  "default_args n =
     \<lparr>n_cycles = n, n_warmup_cycles = 5000, max_time = - 1, worm = False,
      percentageworminsert = 0.20, percentagewormreplace = 0.20, wormcomponents = None,
      length_cycle = 50, random_seed = 1, move_double = True, measure_G_l = False,
      measure_G_tau = True, measure_pert_order = False, statesampling = False,
      flavourchange_moves = False, move_global_prob = 0.005, measure_g4iw_ph = False,
      n4iwf = 30, measure_G2_n_bosonic = 30, cfg_qmc = None\<rparr>"

text \<open>
  What the code outside the repository (TRIQS, w2dynamics) and the repository's
  converters, which are not among the sources, give for the arguments of the call:
  \<^item> \<open>U_ijkl\<close>: \<^verbatim>\<open>dict_to_matrix(extract_U_dict4(h_int), self.gf_struct)\<close>;
  \<^item> \<open>t_ij_matrix\<close>: \<^verbatim>\<open>dict_to_matrix(extract_h_dict(h_0), ...)\<close> with the delta
    interface, \<^verbatim>\<open>block_diag(*t_ij_lst)\<close> otherwise;
  \<^item> \<open>Delta_tau\<close>: the blocks of \<^verbatim>\<open>self.Delta_tau\<close> when line 166 is reached.
\<close>

type_synonym blocks = "(string \<times> complex ndarray) list"

record problem =
  U_ijkl :: "complex ndarray"
  t_ij_matrix :: "complex ndarray"
  Delta_tau :: blocks

text \<open>\<^verbatim>\<open>result.other\<close>: the engine's arrays by observable name.\<close>

type_synonym observables = "(string \<times> real ndarray) list"

text \<open>
  What reaches the engine and the caller, in order. The echo of the configuration that
  only the process of rank 0 prints is left out.
\<close>

datatype event =
    Print string
  | CtHybSolver config int
  | SetProblem "cfgval option"
  | Solve
  | SolveComponent int int int
  | SolveCompStats int int int

fun engine_event :: "event \<Rightarrow> bool" where
  "engine_event (Print m) = False"
| "engine_event _ = True"

text \<open>
  The collaborators, as parameters. The engine is a function of what happened before
  the invocation and of the configuration it shares with \<^verbatim>\<open>solve\<close>; it returns
  \<^verbatim>\<open>result.other\<close> or fails with a message, which \<^verbatim>\<open>solve\<close> does not catch
  (\<open>EngineFailure\<close>).
\<close>

record env =
  mpi_rank :: int
  get_cfg :: "nat \<Rightarrow> config"
  triqs_gf_to_w2dyn_ndarray_g_tosos_beta_ntau :: "blocks \<Rightarrow> complex ndarray"
  worm_get_sector_index :: "cfg_section \<Rightarrow> int"
  index2component_general :: "nat \<Rightarrow> nat \<Rightarrow> int \<Rightarrow> nat list \<times> nat list \<times> nat list"
  componentBS2index_general :: "nat \<Rightarrow> nat \<Rightarrow> int list \<Rightarrow> int"
  engine_solve :: "event list \<Rightarrow> config \<Rightarrow> string + observables"
  engine_solve_component :: "event list \<Rightarrow> config \<Rightarrow> int \<Rightarrow> int \<Rightarrow> int \<Rightarrow> string + observables"
  engine_solve_comp_stats :: "event list \<Rightarrow> config \<Rightarrow> int \<Rightarrow> int \<Rightarrow> int \<Rightarrow> string + observables"

section \<open>ParameterTranslator: building the configuration\<close>

text \<open>Lines 204-215: the largest block size of \<^verbatim>\<open>self.Delta_tau\<close> (the last axis of a block).\<close>

definition max_blocksize :: "blocks \<Rightarrow> nat" where
  "max_blocksize D =
     fold (\<lambda>(name, d) m. let blocksize = last (shape d) in if blocksize > m then blocksize else m) D 0"

text \<open>Lines 222-224.\<close>

definition complex_cfg :: "solver \<Rightarrow> config \<Rightarrow> config" where
  "complex_cfg self cfg =
     (if complex_mode self then set_QMC ''use_phase'' (IntV 1) (set_QMC ''complex'' (IntV 1) cfg)
      else cfg)"

text \<open>Lines 231-268.\<close>

definition base_cfg :: "solver \<Rightarrow> args \<Rightarrow> config \<Rightarrow> config" where
  "base_cfg self a cfg0 =
     (let cfg = set_QMC ''Percentage4OperatorMove''
                  (if move_double a then FloatV 0.005 else IntV 0) cfg0;
          cfg = set_QMC ''PercentageGlobalMove'' (FloatV (move_global_prob a)) cfg;
          cfg = set_QMC ''flavourchange_moves'' (IntV (if flavourchange_moves a then 1 else 0)) cfg;
          cfg = set_General ''beta'' (FloatV (beta self)) cfg;
          cfg = set_QMC ''Niw'' (IntV (int (n_iw self))) cfg;
          cfg = set_QMC ''Ntau'' (IntV (int (n_tau self) * 2)) cfg;
          cfg = set_QMC ''NLegMax'' (IntV (if measure_G_l a then int (n_l self) else 1)) cfg;
          cfg = set_QMC ''NLegOrder'' (IntV (if measure_G_l a then int (n_l self) else 1)) cfg;
          cfg = set_QMC ''Nwarmups'' (IntV (length_cycle a * n_warmup_cycles a)) cfg;
          cfg = set_QMC ''Nmeas'' (IntV (n_cycles a)) cfg;
          cfg = set_QMC ''measurement_time'' (FloatV (max_time a)) cfg;
          cfg = set_QMC ''Ncorr'' (IntV (length_cycle a)) cfg
      in set_QMC ''statesampling'' (IntV (if statesampling a then 1 else 0)) cfg)"

text \<open>Lines 270-286.\<close>

definition worm_cfg :: "args \<Rightarrow> config \<Rightarrow> config" where
  "worm_cfg a cfg0 =
     (if worm a then
        (let cfg = (if cfg_qmc a = None
                    then set_QMC ''WormSearchEta'' (IntV 1)
                           (set_QMC ''WormMeasGtau'' (IntV 1)
                              (set_QMC ''WormMeasGiw'' (IntV 1) cfg0))
                    else cfg0);
             cfg = set_QMC ''PercentageWormInsert''
                     (FloatV (if percentageworminsert a \<noteq> 0 then percentageworminsert a else 0.2)) cfg
         in set_QMC ''PercentageWormReplace''
              (FloatV (if percentagewormreplace a \<noteq> 0 then percentagewormreplace a else 0.2)) cfg)
      else cfg0)"

text \<open>Lines 289-291: the manual options are written last.\<close>

definition manual_cfg_qmc :: "args \<Rightarrow> cfg_section" where
  "manual_cfg_qmc a = (case cfg_qmc a of None \<Rightarrow> [] | Some m \<Rightarrow> m)"

definition manual_cfg :: "args \<Rightarrow> config \<Rightarrow> config" where
  "manual_cfg a cfg0 = fold (\<lambda>(key, v) cfg. set_QMC key v cfg) (manual_cfg_qmc a) cfg0"

text \<open>
  Lines 204-291 together, with what they print. \<^verbatim>\<open>exit()\<close> raises SystemExit after
  the message; the assertion of line 227 reads the option just written.
\<close>

definition finish_cfg :: "solver \<Rightarrow> args \<Rightarrow> config \<Rightarrow> config" where
  "finish_cfg self a cfg = manual_cfg a (worm_cfg a (base_cfg self a cfg))"

definition configure :: "solver \<Rightarrow> args \<Rightarrow> config \<Rightarrow> blocks \<Rightarrow> (error + config) \<times> event list" where
  "configure self a cfg0 D =
     (let cfg = set_QMC ''offdiag'' (IntV (if max_blocksize D = 1 then 0 else 1)) cfg0 in
      if complex_mode self \<and> worm a
      then (Inl SystemExit, [Print ''complex and worm together not yet implemented''])
      else if complex_mode self
      then (case dict_get (QMC (complex_cfg self cfg)) ''offdiag'' of
              Inl e \<Rightarrow> (Inl e, [])
            | Inr v \<Rightarrow>
                if py_eq_int v 0
                then (Inl (AssertionError ''Complex does not make sense for diagonal Delta_tau!''), [])
                else (Inr (finish_cfg self a (complex_cfg self cfg)), []))
      else (Inr (finish_cfg self a cfg), []))"

section \<open>The state of a call\<close>

text \<open>
  The local variables that outlive a branch (\<^verbatim>\<open>cfg\<close>, \<^verbatim>\<open>result\<close>, \<^verbatim>\<open>gtau\<close>,
  \<^verbatim>\<open>gtau_name\<close>; \<open>None\<close> is an unbound name), the attributes the call sets, and
  the events so far. \<open>G_tau_data\<close> is the array handed to the imaginary-time converter.
\<close>

record state =
  cfg :: config
  trace :: "event list"
  result :: "observables option"
  gtau :: "real ndarray option"
  gtau_name :: "string option"
  G2_worm_components :: "(int \<times> real ndarray) list"
  GF_worm_components :: "(int \<times> real ndarray) list"
  G_tau_data :: "real ndarray option"
  hist :: "real ndarray option"
  G_l :: "real ndarray option"

datatype retval = RetNone | RetResult observables | RetG4iw observables

definition init_state :: state where
  "init_state = \<lparr>cfg = \<lparr>General = [], QMC = []\<rparr>, trace = [], result = None, gtau = None,
                  gtau_name = None, G2_worm_components = [], GF_worm_components = [],
                  G_tau_data = None, hist = None, G_l = None\<rparr>"

definition emit :: "event \<Rightarrow> state \<Rightarrow> state" where
  "emit e s = s\<lparr>trace := trace s @ [e]\<rparr>"

definition then_do ::
  "(error + 'a) \<times> state \<Rightarrow> ('a \<Rightarrow> state \<Rightarrow> (error + 'b) \<times> state) \<Rightarrow> (error + 'b) \<times> state" where
  "then_do r f = (case r of (Inl e, s) \<Rightarrow> (Inl e, s) | (Inr x, s) \<Rightarrow> f x s)"

text \<open>\<^verbatim>\<open>cfg["QMC"][key] == n\<close>.\<close>

definition qmc_is :: "string \<Rightarrow> int \<Rightarrow> state \<Rightarrow> (error + bool) \<times> state" where
  "qmc_is key n s =
     (case dict_get (QMC (cfg s)) key of Inl e \<Rightarrow> (Inl e, s) | Inr v \<Rightarrow> (Inr (py_eq_int v n), s))"

section \<open>Preparation up to the first engine object\<close>

text \<open>
  Lines 143-178 on the tensors. The hole propagator is formed before the assertion of
  line 173; \<open>ftau\<close> is the converter's array of the flipped blocks.
\<close>

definition translate :: "env \<Rightarrow> problem \<Rightarrow> error + nat \<times> complex ndarray \<times> complex ndarray \<times> blocks" where
  "translate env p =
     (case U_transform (U_ijkl p) of
        Inl e \<Rightarrow> Inl e
      | Inr (norb, U) \<Rightarrow>
          let D = hole_propagator (Delta_tau p) in
          (case t_transform norb (t_ij_matrix p) of
             Inl e \<Rightarrow> Inl e
           | Inr t_osos_tensor \<Rightarrow> Inr (norb, U, t_osos_tensor, D)))"

text \<open>
  Lines 143-355. The result is \<^verbatim>\<open>self.norb\<close> and the real \<^verbatim>\<open>ftau\<close> of line 333
  (the worm sectors, which read it, run only when the solver is not complex). The
  temporary parameter file, the atom list and the impurity problem are built by the
  collaborators and are taken to succeed; the configuration read from the file is
  \<open>get_cfg env norb\<close>.
\<close>

definition prepare :: "env \<Rightarrow> solver \<Rightarrow> args \<Rightarrow> problem \<Rightarrow> (error + nat \<times> real ndarray) \<times> state" where
  "prepare env self a p =
     (case translate env p of
        Inl e \<Rightarrow> (Inl e, init_state)
      | Inr (norb, U, t_osos_tensor, D) \<Rightarrow>
          let ftau = triqs_gf_to_w2dyn_ndarray_g_tosos_beta_ntau env D in
          (case configure self a (get_cfg env norb) D of
             (Inl e, out) \<Rightarrow> (Inl e, init_state\<lparr>trace := out\<rparr>)
           | (Inr c, out) \<Rightarrow>
               (Inr (norb, nd_real ftau),
                init_state\<lparr>cfg := c,
                  trace := out @ [CtHybSolver c (random_seed a + mpi_rank env),
                                  Print (CHR 0x0A # replicate 40 (CHR ''.'')),
                                  SetProblem None]\<rparr>)))"

section \<open>SectorDispatcher and ComponentEnumerator\<close>

text \<open>Lines 363-366 and 370-373: one standard invocation.\<close>

definition standard_run :: "env \<Rightarrow> state \<Rightarrow> (error + unit) \<times> state" where
  "standard_run env s =
     (let s1 = emit (SetProblem None) s in
      case engine_solve env (trace s1) (cfg s1) of
        Inl m \<Rightarrow> (Inl (EngineFailure m), emit Solve s1)
      | Inr res \<Rightarrow>
          let s2 = (emit Solve s1)\<lparr>result := Some res\<rparr> in
          (case dict_get res ''gtau-full'' of
             Inl e \<Rightarrow> (Inl e, s2)
           | Inr g \<Rightarrow> (Inr (), s2\<lparr>gtau := Some g\<rparr>)))"

text \<open>
  Lines 385-395 and 422-432: the bands and spins of a two-operator component, as
  \<^verbatim>\<open>(b1, s1, b2, s2)\<close>.
\<close>

definition component_bs :: "env \<Rightarrow> nat \<Rightarrow> int \<Rightarrow> error + nat \<times> nat \<times> nat \<times> nat" where
  "component_bs env norb comp_ind =
     (case index2component_general env norb 2 comp_ind of
        (bs, bands, spins) \<Rightarrow>
          if length bands < 2 \<or> length spins < 2 then Inl IndexError
          else Inr (bands ! 0, spins ! 0, bands ! 1, spins ! 1))"

text \<open>\<^verbatim>\<open>ftau[:, b1, s1, b2, s2]\<close> of the (tau, band, spin, band, spin) array.\<close>

definition ftau_column :: "real ndarray \<Rightarrow> nat \<times> nat \<times> nat \<times> nat \<Rightarrow> error + real list" where
  "ftau_column ftau c =
     (case c of (b1, s1, b2, s2) \<Rightarrow>
        (case shape ftau of
           [] \<Rightarrow> Inl IndexError
         | T # rest \<Rightarrow>
             if in_bounds rest [b1, s1, b2, s2]
             then Inr (map (\<lambda>t. nd_get ftau [t, b1, s1, b2, s2]) [0..<T])
             else Inl IndexError))"

text \<open>Line 397: \<^verbatim>\<open>not np.any(np.abs(...) > 1e-5)\<close>.\<close>

definition all_zeros :: "real list \<Rightarrow> bool" where
  "all_zeros col = (\<not> list_ex (\<lambda>x. \<bar>x\<bar> > 1 / 100000) col)"

text \<open>Lines 381-400, over the indices of line 383 in their order.\<close>

fun worm_components :: "env \<Rightarrow> nat \<Rightarrow> real ndarray \<Rightarrow> int list \<Rightarrow> error + int list" where
  "worm_components env norb ftau [] = Inr []"
| "worm_components env norb ftau (comp_ind # todo) =
     (case component_bs env norb comp_ind of
        Inl e \<Rightarrow> Inl e
      | Inr c \<Rightarrow>
          (case ftau_column ftau c of
             Inl e \<Rightarrow> Inl e
           | Inr col \<Rightarrow>
               (case worm_components env norb ftau todo of
                  Inl e \<Rightarrow> Inl e
                | Inr components \<Rightarrow>
                    Inr (if all_zeros col then components else comp_ind # components))))"

definition two_operator_range :: "nat \<Rightarrow> int list" where
  "two_operator_range norb = map int [1..<(2 * norb) ^ 2 + 1]"

text \<open>
  Lines 405-409: the budget per component. The operands are evaluated from left to
  right; the division converts an \<^verbatim>\<open>int\<close> numerator to a float, then refuses a zero
  divisor, then divides in binary64.
\<close>

definition int_of_quotient :: "real \<Rightarrow> nat \<Rightarrow> error + int" where
  "int_of_quotient x ncomp =
     (case to_float (real ncomp) of
        Inl e \<Rightarrow> Inl e
      | Inr y \<Rightarrow>
          (case to_float x of
             Inl e \<Rightarrow> Inl e
           | Inr x' \<Rightarrow> (case float_div x' y of Inl e \<Rightarrow> Inl e | Inr q \<Rightarrow> py_int q)))"

definition apportion :: "real \<Rightarrow> nat \<Rightarrow> config \<Rightarrow> error + config" where
  "apportion max_time_arg ncomp cfg0 =
     (if max_time_arg \<le> 0 then
        (case dict_get (QMC cfg0) ''Nmeas'' of
           Inl e \<Rightarrow> Inl e
         | Inr v \<Rightarrow>
             (case num_of v of
                Inl e \<Rightarrow> Inl e
              | Inr x \<Rightarrow>
                  (case int_of_quotient x ncomp of
                     Inl e \<Rightarrow> Inl e
                   | Inr n \<Rightarrow> Inr (set_QMC ''Nmeas'' (IntV n) cfg0))))
      else (case int_of_quotient max_time_arg ncomp of
              Inl e \<Rightarrow> Inl e
            | Inr n \<Rightarrow> Inr (set_QMC ''measurement_time'' (IntV n) cfg0)))"

text \<open>
  Line 437: \<^verbatim>\<open>gtau[0, b1, s1, b2, s2, :] = value\<close>. The value is broadcast to the
  length of the last axis: it has that length, or one element.
\<close>

definition broadcast_vec :: "real ndarray \<Rightarrow> nat \<Rightarrow> error + real list" where
  "broadcast_vec v L =
     (let shp = dropWhile (\<lambda>d. d = 1) (shape v) in
      if shp = [L] then Inr (data v)
      else if shp = [] then Inr (replicate L (hd (data v)))
      else Inl (ValueError ''could not broadcast input array''))"

definition assign_gtau :: "real ndarray \<Rightarrow> nat \<times> nat \<times> nat \<times> nat \<Rightarrow> real ndarray \<Rightarrow> error + real ndarray" where
  "assign_gtau g c v =
     (case c of (b1, s1, b2, s2) \<Rightarrow>
        if length (shape g) = 6 \<and> in_bounds (take 5 (shape g)) [0, b1, s1, b2, s2]
        then (case broadcast_vec v (last (shape g)) of
                Inl e \<Rightarrow> Inl e
              | Inr xs \<Rightarrow> Inr (set_sub g [0, b1, s1, b2, s2] xs))
        else Inl IndexError)"

text \<open>Lines 417-420: the last key of the result that contains \<^verbatim>\<open>gtau-worm\<close>.\<close>

definition find_gtau_name :: "observables \<Rightarrow> string option \<Rightarrow> string option" where
  "find_gtau_name other nm = fold (\<lambda>i nm. if contains ''gtau-worm'' i then Some i else nm) (map fst other) nm"

text \<open>Lines 411-437: one invocation per component of the list.\<close>

fun two_operator_loop :: "env \<Rightarrow> nat \<Rightarrow> int list \<Rightarrow> state \<Rightarrow> (error + unit) \<times> state" where
  "two_operator_loop env norb [] s = (Inr (), s)"
| "two_operator_loop env norb (comp_ind # todo) s =
     (let s1 = emit (SetProblem None) s in
      case engine_solve_component env (trace s1) (cfg s1) 1 2 comp_ind of
        Inl m \<Rightarrow> (Inl (EngineFailure m), emit (SolveComponent 1 2 comp_ind) s1)
      | Inr res \<Rightarrow>
          let s2 = (emit (SolveComponent 1 2 comp_ind) s1)
                     \<lparr>result := Some res, gtau_name := find_gtau_name res (gtau_name s1)\<rparr> in
          (case component_bs env norb comp_ind of
             Inl e \<Rightarrow> (Inl e, s2)
           | Inr c \<Rightarrow>
               (case gtau_name s2 of
                  None \<Rightarrow> (Inl (NameError ''gtau_name''), s2)
                | Some nm \<Rightarrow>
                    (case dict_get res nm of
                       Inl e \<Rightarrow> (Inl e, s2)
                     | Inr v \<Rightarrow>
                         (case gtau s2 of
                            None \<Rightarrow> (Inl (NameError ''gtau''), s2)
                          | Some g \<Rightarrow>
                              (case assign_gtau g c v of
                                 Inl e \<Rightarrow> (Inl e, s2)
                               | Inr g' \<Rightarrow>
                                   two_operator_loop env norb todo (s2\<lparr>gtau := Some g'\<rparr>)))))))"

text \<open>Lines 377-439: the two-operator worm sector.\<close>

definition two_operator :: "env \<Rightarrow> solver \<Rightarrow> args \<Rightarrow> nat \<Rightarrow> real ndarray \<Rightarrow> state \<Rightarrow> (error + unit) \<times> state" where
  "two_operator env self a norb ftau s =
     (let s0 = s\<lparr>gtau := Some (nd_zeros [1, norb, 2, norb, 2, 2 * n_tau self])\<rparr> in
      case worm_components env norb ftau (two_operator_range norb) of
        Inl e \<Rightarrow> (Inl e, s0)
      | Inr components \<Rightarrow>
          (case apportion (max_time a) (length components) (cfg s0) of
             Inl e \<Rightarrow> (Inl e, s0)
           | Inr c \<Rightarrow> two_operator_loop env norb components (s0\<lparr>cfg := c\<rparr>)))"

text \<open>
  Lines 466-478 and 560-572: the component list of the configuration; a positive
  integer is kept, any other integer dropped, a band-spin tuple translated.
\<close>

fun resolve_components :: "env \<Rightarrow> nat \<Rightarrow> wormcomp list \<Rightarrow> int list" where
  "resolve_components env norb [] = []"
| "resolve_components env norb (CompIndex c # cs) =
     (if c > 0 then c # resolve_components env norb cs else resolve_components env norb cs)"
| "resolve_components env norb (CompBS c # cs) =
     componentBS2index_general env norb 4 c # resolve_components env norb cs"

definition configured_components :: "env \<Rightarrow> nat \<Rightarrow> state \<Rightarrow> (error + int list) \<times> state" where
  "configured_components env norb s =
     (case dict_get (QMC (cfg s)) ''WormComponents'' of
        Inl e \<Rightarrow> (Inl e, s)
      | Inr (CompsV cs) \<Rightarrow> (Inr (resolve_components env norb cs), s)
      | Inr _ \<Rightarrow> (Inl TypeError, s))"

text \<open>
  Lines 484-510 and 578-605: one \<^verbatim>\<open>solve_comp_stats\<close> per component; exactly one key
  of the result must contain \<open>key\<close>. \<open>four\<close> tells the four-operator sector, which
  passes \<^verbatim>\<open>cfg["QMC"]["FourPnt"]\<close> to \<^verbatim>\<open>set_problem\<close> and collects into
  \<^verbatim>\<open>self.G2_worm_components\<close>, from the reduced ones.
\<close>

fun comp_stats_loop ::
  "env \<Rightarrow> bool \<Rightarrow> string \<Rightarrow> int \<Rightarrow> int list \<Rightarrow> state \<Rightarrow> (error + unit) \<times> state" where
  "comp_stats_loop env four key worm_sector [] s = (Inr (), s)"
| "comp_stats_loop env four key worm_sector (component # todo) s =
     (case (if four then dict_get (QMC (cfg s)) ''FourPnt'' else Inr (IntV 0)) of
        Inl e \<Rightarrow> (Inl e, s)
      | Inr fp \<Rightarrow>
          let s1 = emit (SetProblem (if four then Some fp else None)) s in
          (case engine_solve_comp_stats env (trace s1) (cfg s1) 0 worm_sector component of
             Inl m \<Rightarrow> (Inl (EngineFailure m), emit (SolveCompStats 0 worm_sector component) s1)
           | Inr res \<Rightarrow>
               let s2 = emit (SolveCompStats 0 worm_sector component) s1;
                   keys = filter (contains key) (map fst res) in
               if length keys \<noteq> 1 then (Inl (AssertionError []), s2)
               else (case dict_get res (hd keys) of
                       Inl e \<Rightarrow> (Inl e, s2)
                     | Inr v \<Rightarrow>
                         comp_stats_loop env four key worm_sector todo
                           (if four
                            then s2\<lparr>G2_worm_components := G2_worm_components s2 @ [(component, v)]\<rparr>
                            else s2\<lparr>GF_worm_components := GF_worm_components s2 @ [(component, v)]\<rparr>))))"

definition worm_warning :: string where
  "worm_warning =
     ''WARNING: worm_components parameter not used, set cfg_qmc['' @ [CHR 0x22] @
     ''WormComponents'' @ [CHR 0x22] @ ''] instead.''"

definition warn_wormcomponents :: "args \<Rightarrow> state \<Rightarrow> state" where
  "warn_wormcomponents a s =
     (if wormcomponents a \<noteq> None then emit (Print worm_warning) s else s)"

definition require_qmc :: "string \<Rightarrow> state \<Rightarrow> (error + unit) \<times> state" where
  "require_qmc key s =
     (case dict_get (QMC (cfg s)) key of Inl e \<Rightarrow> (Inl e, s) | Inr v \<Rightarrow> (Inr (), s))"

text \<open>
  Lines 441-510: the four-operator sector of a manual configuration. The mesh sizes
  \<^verbatim>\<open>N4iwf\<close> and \<^verbatim>\<open>N4iwb\<close> are read for the meshes of the result, which the
  collaborators build.
\<close>

definition four_operator :: "env \<Rightarrow> solver \<Rightarrow> args \<Rightarrow> nat \<Rightarrow> state \<Rightarrow> (error + unit) \<times> state" where
  "four_operator env self a norb s =
     then_do (require_qmc ''N4iwf'' (warn_wormcomponents a s)) (\<lambda>_ s.
     then_do (require_qmc ''N4iwb'' s) (\<lambda>_ s.
       let s1 = s\<lparr>G2_worm_components := [],
                  gtau := Some (nd_zeros [1, norb, 2, norb, 2, 2 * n_tau self])\<rparr>;
           worm_sector = worm_get_sector_index env (QMC (cfg s1)) in
       then_do (configured_components env norb s1) (\<lambda>components s.
         comp_stats_loop env True ''g4iw-worm'' worm_sector components s)))"

text \<open>Lines 529-546: the meshes and the key of the reduced sector.\<close>

definition reduced_key :: "state \<Rightarrow> (error + string) \<times> state" where
  "reduced_key s =
     then_do (qmc_is ''WormMeasP3iwPH'' 1 s) (\<lambda>p3 s.
       if p3 then
         then_do (require_qmc ''N3iwf'' s) (\<lambda>_ s.
         then_do (require_qmc ''N3iwb'' s) (\<lambda>_ s. (Inr ''p3iw-worm'', s)))
       else
         then_do (qmc_is ''WormMeasP2iwPH'' 1 s) (\<lambda>p2 s.
           if p2 then then_do (require_qmc ''N2iwb'' s) (\<lambda>_ s. (Inr ''p2iw-worm'', s))
           else
             then_do (qmc_is ''WormMeasP2tauPH'' 1 s) (\<lambda>p2t s.
               if p2t then (Inr ''p2tau-worm'', s) else (Inl NotImplementedError, s))))"

text \<open>Lines 514-605: the reduced two-particle sectors.\<close>

definition reduced_sector :: "env \<Rightarrow> solver \<Rightarrow> args \<Rightarrow> nat \<Rightarrow> state \<Rightarrow> (error + unit) \<times> state" where
  "reduced_sector env self a norb s =
     then_do (reduced_key (warn_wormcomponents a s)) (\<lambda>result_key s.
       let s1 = s\<lparr>GF_worm_components := [],
                  gtau := Some (nd_zeros [1, norb, 2, norb, 2, 2 * n_tau self])\<rparr>;
           worm_sector = worm_get_sector_index env (QMC (cfg s1)) in
       then_do (configured_components env norb s1) (\<lambda>components s.
         comp_stats_loop env False result_key worm_sector components s))"

text \<open>The condition of lines 514-516, and with \<^verbatim>\<open>FourPnt\<close> first that of lines 712-715.\<close>

definition any_reduced :: "state \<Rightarrow> (error + bool) \<times> state" where
  "any_reduced s =
     then_do (qmc_is ''WormMeasP3iwPH'' 1 s) (\<lambda>p3 s.
       if p3 then (Inr True, s)
       else then_do (qmc_is ''WormMeasP2iwPH'' 1 s) (\<lambda>p2 s.
              if p2 then (Inr True, s) else qmc_is ''WormMeasP2tauPH'' 1 s))"

definition any_two_particle :: "state \<Rightarrow> (error + bool) \<times> state" where
  "any_two_particle s =
     then_do (qmc_is ''FourPnt'' 8 s) (\<lambda>fp s. if fp then (Inr True, s) else any_reduced s)"

text \<open>Lines 362-605: the branch taken when a one-particle measurement is requested.\<close>

definition dispatch :: "env \<Rightarrow> solver \<Rightarrow> args \<Rightarrow> nat \<Rightarrow> real ndarray \<Rightarrow> state \<Rightarrow> (error + unit) \<times> state" where
  "dispatch env self a norb ftau s =
     (if complex_mode self then standard_run env s
      else if \<not> worm a then standard_run env s
      else if worm_get_sector_index env (QMC (cfg s)) = 2 then two_operator env self a norb ftau s
      else then_do (qmc_is ''FourPnt'' 8 s) (\<lambda>fp s.
             if fp then four_operator env self a norb s
             else then_do (any_reduced s) (\<lambda>red s.
                    if red then reduced_sector env self a norb s else (Inr (), s))))"

section \<open>The automatic two-particle pipeline\<close>

text \<open>Lines 615-621.\<close>

definition g4iw_cfg :: "args \<Rightarrow> config \<Rightarrow> config" where
  "g4iw_cfg a cfg0 =
     (let cfg = set_QMC ''FourPnt'' (IntV 8) cfg0;
          cfg = set_QMC ''N4iwf'' (IntV (n4iwf a)) cfg;
          cfg = set_QMC ''N4iwb'' (IntV (measure_G2_n_bosonic a - 1)) cfg;
          cfg = set_QMC ''PercentageWormInsert'' (FloatV (percentageworminsert a)) cfg;
          cfg = set_QMC ''PercentageWormReplace'' (FloatV (percentagewormreplace a)) cfg;
          cfg = set_QMC ''WormMeasG4iw'' (IntV 1) cfg
      in set_QMC ''WormSearchEta'' (IntV 1) cfg)"

text \<open>Lines 630-651: the loop over the components, collecting into \<^verbatim>\<open>g4iw\<close>.\<close>

fun g4iw_loop :: "env \<Rightarrow> int list \<Rightarrow> observables \<Rightarrow> state \<Rightarrow> (error + observables) \<times> state" where
  "g4iw_loop env [] g4iw s = (Inr g4iw, s)"
| "g4iw_loop env (icomponent # todo) g4iw s =
     (case dict_get (QMC (cfg s)) ''FourPnt'' of
        Inl e \<Rightarrow> (Inl e, s)
      | Inr fp \<Rightarrow>
          let s1 = emit (SetProblem (Some fp)) s in
          (case engine_solve_comp_stats env (trace s1) (cfg s1) 1 4 icomponent of
             Inl m \<Rightarrow> (Inl (EngineFailure m), emit (SolveCompStats 1 4 icomponent) s1)
           | Inr res \<Rightarrow>
               g4iw_loop env todo
                 (fold (\<lambda>(i, v) g. if contains ''g4iw-worm'' i then dict_set g i v else g) res g4iw)
                 (emit (SolveCompStats 1 4 icomponent) s1)))"

text \<open>Lines 611-663: a new engine object for the new configuration, then the loop.\<close>

definition auto_g4iw :: "env \<Rightarrow> args \<Rightarrow> nat \<Rightarrow> state \<Rightarrow> (error + retval) \<times> state" where
  "auto_g4iw env a norb s =
     (let c = g4iw_cfg a (cfg s);
          s1 = emit (CtHybSolver c (random_seed a + mpi_rank env)) (s\<lparr>cfg := c\<rparr>);
          components = (case wormcomponents a of
                          Some cs \<Rightarrow> cs
                        | None \<Rightarrow> map int [1..<(2 * norb) ^ 4 + 1])
      in then_do (g4iw_loop env components [] s1) (\<lambda>g4iw s. (Inr (RetG4iw g4iw), s)))"

section \<open>ResultConverter: the end of a call\<close>

definition read_result :: "string \<Rightarrow> state \<Rightarrow> (error + real ndarray) \<times> state" where
  "read_result key s =
     (case result s of
        None \<Rightarrow> (Inl (NameError ''result''), s)
      | Some res \<Rightarrow> (case dict_get res key of Inl e \<Rightarrow> (Inl e, s) | Inr v \<Rightarrow> (Inr v, s)))"

text \<open>Lines 683-688.\<close>

definition tau_conversion :: "args \<Rightarrow> state \<Rightarrow> (error + unit) \<times> state" where
  "tau_conversion a s =
     then_do (qmc_is ''offdiag'' 0 s) (\<lambda>diag s.
     then_do (if diag \<and> \<not> worm a
              then then_do (read_result ''gtau'' s) (\<lambda>g s.
                     case bs_diagflat g of
                       Inl e \<Rightarrow> (Inl e, s)
                     | Inr g' \<Rightarrow> (Inr (), s\<lparr>gtau := Some g'\<rparr>))
              else (Inr (), s)) (\<lambda>_ s.
       case gtau s of
         None \<Rightarrow> (Inl (NameError ''gtau''), s)
       | Some g \<Rightarrow> (Inr (), s\<lparr>G_tau_data := Some g\<rparr>)))"

text \<open>
  Lines 683-725. \<^verbatim>\<open>hasattr(self, 'result_gen')\<close> and \<^verbatim>\<open>hasattr(self, 'result_aux')\<close>
  are false: both are local names, never attributes.
\<close>

definition convert :: "args \<Rightarrow> state \<Rightarrow> (error + retval) \<times> state" where
  "convert a s =
     then_do (if measure_G_tau a then tau_conversion a s else (Inr (), s)) (\<lambda>_ s.
     then_do (if measure_pert_order a
              then then_do (read_result ''hist'' s) (\<lambda>h s. (Inr (), s\<lparr>hist := Some h\<rparr>))
              else (Inr (), s)) (\<lambda>_ s.
     then_do (if measure_G_l a
              then then_do (read_result ''gleg-full'' s) (\<lambda>g s. (Inr (), s\<lparr>G_l := Some g\<rparr>))
              else (Inr (), s)) (\<lambda>_ s.
     then_do (any_two_particle s) (\<lambda>tp s.
       if tp then (Inr RetNone, s)
       else if measure_G_tau a
       then (case result s of
               None \<Rightarrow> (Inl (NameError ''result''), s)
             | Some res \<Rightarrow> (Inr (RetResult res), s))
       else (Inr RetNone, s)))))"

section \<open>A call of solve\<close>

definition solve :: "env \<Rightarrow> solver \<Rightarrow> args \<Rightarrow> problem \<Rightarrow> (error + retval) \<times> state" where
  "solve env self a p =
     then_do (prepare env self a p) (\<lambda>(norb, ftau) s.
     then_do (if measure_G_tau a \<or> measure_G_l a \<or> measure_pert_order a
              then dispatch env self a norb ftau s
              else (Inr (), s)) (\<lambda>_ s.
       if measure_g4iw_ph a \<and> length (manual_cfg_qmc a) = 0
       then auto_g4iw env a norb s
       else convert a s))"

section \<open>Observing a call\<close>

text \<open>
  The events by which the automatic two-particle pipeline of lines 611-663 shows: the
  construction of an engine object (the first one is built on line 314, the pipeline
  builds a second one on line 622) and its call \<^verbatim>\<open>solve_comp_stats(1, 4, ...)\<close>.
  \<open>keeps s r\<close> says of a step from state \<open>s\<close> with outcome \<open>r\<close> that it added none of
  these events and did not fail with the orbital-count assertion.
\<close>

fun engine_object :: "event \<Rightarrow> bool" where
  "engine_object (CtHybSolver c n) = True"
| "engine_object _ = False"

fun automatic_g4iw_call :: "event \<Rightarrow> bool" where
  "automatic_g4iw_call (SolveCompStats i k c) = (i = 1 \<and> k = 4)"
| "automatic_g4iw_call _ = False"

text \<open>
  A component is retained by lines 385-400 when its column of \<^verbatim>\<open>ftau\<close> can be read
  and is not all zeros.
\<close>

definition retained :: "env \<Rightarrow> nat \<Rightarrow> real ndarray \<Rightarrow> int \<Rightarrow> bool" where
  "retained env norb ftau c =
     (case component_bs env norb c of
        Inl e \<Rightarrow> False
      | Inr bs \<Rightarrow> (case ftau_column ftau bs of Inl e \<Rightarrow> False | Inr col \<Rightarrow> \<not> all_zeros col))"

text \<open>The configurations the engine objects of a call were built with, in order.\<close>

fun configs_of :: "event list \<Rightarrow> config list" where
  "configs_of [] = []"
| "configs_of (CtHybSolver c n # es) = c # configs_of es"
| "configs_of (e # es) = configs_of es"

definition quiet :: "event \<Rightarrow> bool" where
  "quiet e = (\<not> engine_object e \<and> \<not> automatic_g4iw_call e)"

definition keeps :: "state \<Rightarrow> (error + 'a) \<times> state \<Rightarrow> bool" where
  "keeps s r = ((\<exists>es. trace (snd r) = trace s @ es \<and> list_all quiet es) \<and>
                fst r \<noteq> Inl orbital_mismatch)"

section \<open>Example collaborators\<close>

text \<open>
  Concrete collaborators for the examples below. \<open>example_index2component\<close> splits a
  compound index of two operators into flavours (base \<open>2 * norb\<close>, first operator
  first) and a flavour into band and spin (spin fastest); the sector index is 2 when
  \<^verbatim>\<open>WormMeasGtau\<close> is set; the converter returns the given array; every engine
  invocation returns arrays of ones.
\<close>

definition example_index2component :: "nat \<Rightarrow> nat \<Rightarrow> int \<Rightarrow> nat list \<times> nat list \<times> nat list" where
  "example_index2component norb N ind =
     (let k = nat (ind - 1); bs = [k div (2 * norb), k mod (2 * norb)]
      in (bs, map (\<lambda>f. f div 2) bs, map (\<lambda>f. f mod 2) bs))"

definition example_cfg :: config where
  "example_cfg = \<lparr>General = [],
                   QMC = [(''FourPnt'', IntV 0), (''WormMeasP3iwPH'', IntV 0),
                          (''WormMeasP2iwPH'', IntV 0), (''WormMeasP2tauPH'', IntV 0)]\<rparr>"

definition example_env :: "complex ndarray \<Rightarrow> env" where
  "example_env ftau =
     \<lparr>mpi_rank = 0,
      get_cfg = (\<lambda>norb. example_cfg),
      triqs_gf_to_w2dyn_ndarray_g_tosos_beta_ntau = (\<lambda>D. ftau),
      worm_get_sector_index = (\<lambda>qmc. if map_of qmc ''WormMeasGtau'' = Some (IntV 1) then 2 else 0),
      index2component_general = example_index2component,
      componentBS2index_general = (\<lambda>norb N c. 1),
      engine_solve = (\<lambda>tr c. Inr [(''gtau-full'', \<lparr>shape = [1], data = [1]\<rparr>),
                                  (''gtau'', \<lparr>shape = [1, 2, 1], data = [1, 1]\<rparr>)]),
      engine_solve_component = (\<lambda>tr c i k comp. Inr [(''gtau-worm'', \<lparr>shape = [1], data = [1]\<rparr>)]),
      engine_solve_comp_stats = (\<lambda>tr c i k comp. Inr [(''g4iw-worm'', \<lparr>shape = [1], data = [1]\<rparr>)])\<rparr>"

definition example_solver :: solver where
  "example_solver = \<lparr>beta = 10, n_iw = 4, n_tau = 2, n_l = 3, delta_interface = True,
                      complex_mode = False\<rparr>"

text \<open>One orbital, two 1 x 1 blocks on two time points, everything zero.\<close>

definition example_problem :: problem where
  "example_problem =
     \<lparr>U_ijkl = \<lparr>shape = [2, 2, 2, 2], data = replicate 16 0\<rparr>,
      t_ij_matrix = \<lparr>shape = [2, 2], data = replicate 4 0\<rparr>,
      Delta_tau = [(''up'', \<lparr>shape = [2, 1, 1], data = [0, 0]\<rparr>),
                   (''down'', \<lparr>shape = [2, 1, 1], data = [0, 0]\<rparr>)]\<rparr>"

text \<open>
  Hybridization arrays \<^verbatim>\<open>ftau[t, b1, s1, b2, s2]\<close> for one orbital on two time points:
  nonzero for the components 1 and 4 (the diagonal), and for the components 1, 2 and 4.
\<close>

definition example_ftau_diagonal :: "complex ndarray" where
  "example_ftau_diagonal = \<lparr>shape = [2, 1, 2, 1, 2], data = [1, 0, 0, 1, 1, 0, 0, 1]\<rparr>"

definition example_ftau_three :: "complex ndarray" where
  "example_ftau_three = \<lparr>shape = [2, 1, 2, 1, 2], data = [1, 1, 0, 1, 1, 1, 0, 1]\<rparr>"

section \<open>Lemmas on arrays\<close>

lemma in_bounds_Cons [simp]:
  "in_bounds (d # ds) (i # is) = (i < d \<and> in_bounds ds is)"
  "in_bounds [] [] = True" "in_bounds (d # ds) [] = False" "in_bounds [] (i # is) = False"
  by (simp_all add: in_bounds_def)

lemma in_bounds_length: "in_bounds ds is \<Longrightarrow> length is = length ds"
  by (simp add: in_bounds_def list_all2_lengthD)

lemma ravel_lt: "in_bounds ds is \<Longrightarrow> ravel ds is < prod_list ds"
proof (induction ds "is" rule: ravel.induct)
  case (1 d ds i "is")
  then have r: "ravel ds is < prod_list ds" and i: "i < d" by simp_all
  from i have "Suc i \<le> d" by simp
  then have "Suc i * prod_list ds \<le> d * prod_list ds" by (rule mult_le_mono1)
  with r show ?case by simp
qed (auto simp: in_bounds_def)

lemma unravel_ravel: "in_bounds ds is \<Longrightarrow> unravel ds (ravel ds is) = is"
proof (induction ds "is" rule: ravel.induct)
  case (1 d ds i "is")
  then have r: "ravel ds is < prod_list ds" by (simp add: ravel_lt)
  with 1 show ?case by simp
qed (auto simp: in_bounds_def)

lemma ravel_inj:
  "in_bounds ds is \<Longrightarrow> in_bounds ds js \<Longrightarrow> ravel ds is = ravel ds js \<Longrightarrow> is = js"
  by (metis unravel_ravel)

lemma ravel_append:
  "length is = length ds \<Longrightarrow>
   ravel (ds @ es) (is @ js) = ravel ds is * prod_list es + ravel es js"
  by (induction ds "is" rule: ravel.induct) (simp_all add: algebra_simps)

lemma in_bounds_append:
  "length is = length ds \<Longrightarrow> in_bounds (ds @ es) (is @ js) = (in_bounds ds is \<and> in_bounds es js)"
  by (simp add: in_bounds_def list_all2_append)

lemma ravel_unravel: "k < prod_list ds \<Longrightarrow> ravel ds (unravel ds k) = k"
proof (induction ds arbitrary: k)
  case (Cons d ds)
  have "0 < prod_list ds" using Cons.prems by (cases "prod_list ds = 0") simp_all
  then have "k mod prod_list ds < prod_list ds" by simp
  then have "ravel ds (unravel ds (k mod prod_list ds)) = k mod prod_list ds"
    by (rule Cons.IH)
  then show ?case by simp
qed simp

lemma in_bounds_unravel: "k < prod_list ds \<Longrightarrow> in_bounds ds (unravel ds k)"
proof (induction ds arbitrary: k)
  case (Cons d ds)
  have pos: "0 < prod_list ds" using Cons.prems by (cases "prod_list ds = 0") simp_all
  then have "k mod prod_list ds < prod_list ds" by simp
  then have ih: "in_bounds ds (unravel ds (k mod prod_list ds))" by (rule Cons.IH)
  have "k < d * prod_list ds" using Cons.prems by simp
  then have "k div prod_list ds < d" using pos by (simp add: div_less_iff_less_mult)
  with ih show ?case by simp
qed simp

lemma block_iff:
  fixes a b x R :: nat
  assumes "x < R"
  shows "(b * R \<le> a * R + x \<and> a * R + x < b * R + R) = (a = b)"
proof
  assume h: "b * R \<le> a * R + x \<and> a * R + x < b * R + R"
  show "a = b"
  proof (rule ccontr)
    assume "a \<noteq> b"
    then consider "a < b" | "b < a" by linarith
    then show False
    proof cases
      case 1
      then have "Suc a \<le> b" by simp
      then have "Suc a * R \<le> b * R" by (rule mult_le_mono1)
      with h assms show False by simp
    next
      case 2
      then have "Suc b \<le> a" by simp
      then have "Suc b * R \<le> a * R" by (rule mult_le_mono1)
      with h show False by simp
    qed
  qed
next
  assume "a = b" with assms show "b * R \<le> a * R + x \<and> a * R + x < b * R + R" by simp
qed

lemma shape_set_sub [simp]: "shape (set_sub a p v) = shape a"
  by (simp add: set_sub_def Let_def)

lemma length_set_sub [simp]: "length (data (set_sub a p v)) = length (data a)"
  by (simp add: set_sub_def Let_def)

lemma set_sub_get:
  assumes wf: "length (data a) = prod_list (shape a)"
    and shp: "shape a = ds @ es"
    and p: "in_bounds ds p" and q1: "in_bounds ds q1" and q2: "in_bounds es q2"
  shows "nd_get (set_sub a p v) (q1 @ q2)
           = (if q1 = p then v ! ravel es q2 else nd_get a (q1 @ q2))"
proof -
  let ?R = "prod_list es"
  have lp: "length p = length ds" and lq: "length q1 = length ds"
    using p q1 by (simp_all add: in_bounds_length)
  have idx: "ravel (ds @ es) (q1 @ q2) = ravel ds q1 * ?R + ravel es q2"
    by (rule ravel_append [OF lq])
  have x: "ravel es q2 < ?R" by (rule ravel_lt [OF q2])
  have "in_bounds (ds @ es) (q1 @ q2)" using q1 q2 lq by (simp add: in_bounds_append)
  then have lt: "ravel (ds @ es) (q1 @ q2) < length (data a)"
    unfolding wf shp by (rule ravel_lt)
  have inj: "(ravel ds q1 = ravel ds p) = (q1 = p)"
    using ravel_inj [OF q1 p] by auto
  have rng: "(ravel ds p * ?R \<le> ravel ds q1 * ?R + ravel es q2 \<and>
              ravel ds q1 * ?R + ravel es q2 < ravel ds p * ?R + ?R) = (q1 = p)"
    unfolding block_iff [OF x] inj ..
  have "nd_get (set_sub a p v) (q1 @ q2)
          = (if ravel ds p * ?R \<le> ravel ds q1 * ?R + ravel es q2 \<and>
                ravel ds q1 * ?R + ravel es q2 < ravel ds p * ?R + ?R
             then v ! (ravel ds q1 * ?R + ravel es q2 - ravel ds p * ?R)
             else data a ! (ravel ds q1 * ?R + ravel es q2))"
    unfolding nd_get_def set_sub_def Let_def using lt
    by (simp add: shp lp idx)
  also have "\<dots> = (if q1 = p then v ! ravel es q2 else nd_get a (q1 @ q2))"
    unfolding rng by (simp add: nd_get_def shp idx)
  finally show ?thesis .
qed

lemma get_sub_data:
  assumes shp: "shape a = ds @ es" and lp: "length p = length ds" and q2: "in_bounds es q2"
  shows "data (get_sub a p) ! ravel es q2 = nd_get a (p @ q2)"
proof -
  have x: "ravel es q2 < prod_list es" by (rule ravel_lt [OF q2])
  show ?thesis
    unfolding get_sub_def Let_def nd_get_def using x
    by (simp add: shp lp ravel_append [OF lp])
qed

section \<open>The interaction tensor\<close>

lemma upt8: "[0..<8] = [0,1,2,3,4,5,6,7::nat]"
  by (simp add: upt_rec)

lemma ravel_pair:
  "ravel (d # e # ds) (i # j # is) = ravel (d * e # ds) ((i * e + j) # is)"
  by (simp add: algebra_simps)

lemma ravel_cong_tl:
  "ravel ds is = ravel es js \<Longrightarrow> prod_list ds = prod_list es \<Longrightarrow>
   ravel (d # ds) (i # is) = ravel (d # es) (i # js)"
  by simp

lemma ravel_pairs4:
  "ravel [d, e, d, e, d, e, d, e] [i1, j1, i2, j2, i3, j3, i4, j4]
     = ravel [d * e, d * e, d * e, d * e] [i1 * e + j1, i2 * e + j2, i3 * e + j3, i4 * e + j4]"
proof -
  have a4: "ravel [d, e] [i4, j4] = ravel [d * e] [i4 * e + j4]"
    by (rule ravel_pair)
  have a3: "ravel [d, e, d, e] [i3, j3, i4, j4] = ravel [d * e, d * e] [i3 * e + j3, i4 * e + j4]"
    unfolding ravel_pair [of d e "[d, e]"] by (rule ravel_cong_tl [OF a4]) simp
  have a2: "ravel [d, e, d, e, d, e] [i2, j2, i3, j3, i4, j4]
            = ravel [d * e, d * e, d * e] [i2 * e + j2, i3 * e + j3, i4 * e + j4]"
    unfolding ravel_pair [of d e "[d, e, d, e]"] by (rule ravel_cong_tl [OF a3]) simp
  show ?thesis
    unfolding ravel_pair [of d e "[d, e, d, e, d, e]"] by (rule ravel_cong_tl [OF a2]) simp
qed

lemma shape_transpose_nd: "shape (transpose_nd a axes) = map (\<lambda>p. shape a ! p) axes"
  by (simp add: transpose_nd_def Let_def)

lemma transpose_nd_get:
  assumes "in_bounds (map (\<lambda>p. shape a ! p) axes) j"
  shows "nd_get (transpose_nd a axes) j
           = nd_get a (map (\<lambda>q. j ! index_of axes q) [0..<length axes])"
proof -
  let ?shp = "map (\<lambda>p. shape a ! p) axes"
  have lt: "ravel ?shp j < prod_list ?shp" by (rule ravel_lt [OF assms])
  have un: "unravel ?shp (ravel ?shp j) = j" by (rule unravel_ravel [OF assms])
  show ?thesis
    unfolding nd_get_def transpose_nd_def Let_def using lt
    by (simp add: un del: upt_Suc)
qed

lemma U_transform_entry:
  assumes shp: "shape U = [2 * n, 2 * n, 2 * n, 2 * n]"
    and ob: "o1 < n" "o2 < n" "o3 < n" "o4 < n"
    and sb: "s1 < 2" "s2 < 2" "s3 < 2" "s4 < 2"
  shows "\<exists>U'. U_transform U = Inr (n, U') \<and> shape U' = [n * 2, n * 2, n * 2, n * 2] \<and>
           nd_get U' [o1 * 2 + s1, o2 * 2 + s2, o3 * 2 + s3, o4 * 2 + s4]
             = nd_get U [s1 * n + o1, s2 * n + o2, s3 * n + o3, s4 * n + o4]"
proof -
  let ?s8 = "[2, n, 2, n, 2, n, 2, n]"
  let ?t8 = "[n, 2, n, 2, n, 2, n, 2]"
  let ?ax = "[1, 0, 3, 2, 5, 4, 7, 6::nat]"
  let ?j = "[o1, s1, o2, s2, o3, s3, o4, s4]"
  let ?i = "[s1, o1, s2, o2, s3, o3, s4, o4]"
  let ?U1 = "U\<lparr>shape := ?s8\<rparr>"
  let ?U2 = "transpose_nd ?U1 ?ax"
  let ?U3 = "?U2\<lparr>shape := [n * 2, n * 2, n * 2, n * 2]\<rparr>"
  have r1: "reshape U ?s8 = Inr ?U1"
    by (simp add: reshape_def shp)
  have tshape: "map (\<lambda>p. shape ?U1 ! p) ?ax = ?t8"
    by simp
  have r2: "reshape ?U2 [n * 2, n * 2, n * 2, n * 2] = Inr ?U3"
    unfolding reshape_def shape_transpose_nd tshape by simp
  have d: "2 * n div 2 = n" by simp
  have run: "U_transform U = Inr (n, ?U3)"
    unfolding U_transform_def shp list.case Let_def d r1 sum.case r2 ..
  have jb: "in_bounds (map (\<lambda>p. shape ?U1 ! p) ?ax) ?j"
    unfolding tshape using ob sb by simp
  have perm: "map (\<lambda>q. ?j ! index_of ?ax q) [0..<length ?ax] = ?i"
    by (simp add: upt8)
  have "nd_get ?U3 [o1 * 2 + s1, o2 * 2 + s2, o3 * 2 + s3, o4 * 2 + s4]
          = data ?U2 ! ravel [n * 2, n * 2, n * 2, n * 2] [o1 * 2 + s1, o2 * 2 + s2, o3 * 2 + s3, o4 * 2 + s4]"
    by (simp add: nd_get_def)
  also have "\<dots> = data ?U2 ! ravel ?t8 ?j"
    by (simp only: ravel_pairs4)
  also have "\<dots> = nd_get ?U2 ?j"
    unfolding nd_get_def shape_transpose_nd tshape ..
  also have "\<dots> = nd_get ?U1 ?i"
    unfolding transpose_nd_get [OF jb] perm ..
  also have "\<dots> = data U ! ravel ?s8 ?i"
    by (simp add: nd_get_def)
  also have "\<dots> = data U ! ravel [2 * n, 2 * n, 2 * n, 2 * n] [s1 * n + o1, s2 * n + o2, s3 * n + o3, s4 * n + o4]"
    by (simp only: ravel_pairs4)
  also have "\<dots> = nd_get U [s1 * n + o1, s2 * n + o2, s3 * n + o3, s4 * n + o4]"
    by (simp add: nd_get_def shp)
  finally show ?thesis using run by simp
qed

text \<open>
  Claim C7, as the code has it. For a tensor of shape (2n, 2n, 2n, 2n), whose flavour
  index is \<open>spin * n + orbital\<close>, lines 146-149 succeed with \<^verbatim>\<open>self.norb\<close> = n and
  return a tensor of the same shape in which the flavour index of each of the four
  operator positions is \<open>orbital * 2 + spin\<close> (spin runs fastest). Each entry of the
  result is the entry of the argument at the permuted index: the transform moves
  entries and changes no value, so no factor of 2 and no sign are applied by it.
\<close>

theorem U_transform_index_permutation:
  assumes "shape U = [2 * n, 2 * n, 2 * n, 2 * n]"
    and "o1 < n" "o2 < n" "o3 < n" "o4 < n"
    and "s1 < 2" "s2 < 2" "s3 < 2" "s4 < 2"
  shows "\<exists>U'. U_transform U = Inr (n, U') \<and> shape U' = [n * 2, n * 2, n * 2, n * 2] \<and>
           nd_get U' [o1 * 2 + s1, o2 * 2 + s2, o3 * 2 + s3, o4 * 2 + s4]
             = nd_get U [s1 * n + o1, s2 * n + o2, s3 * n + o3, s4 * n + o4]"
  using assms by (rule U_transform_entry)


text \<open>The theorem at a two-orbital tensor with the entries 0, ..., 255.\<close>

theorem U_transform_index_permutation_witness:
  "\<exists>U'. U_transform \<lparr>shape = [4, 4, 4, 4], data = map int [0..<256]\<rparr> = Inr (2, U') \<and>
         shape U' = [4, 4, 4, 4] \<and> nd_get U' [1, 2, 2, 1] = 150"
  using U_transform_index_permutation
          [of "\<lparr>shape = [4, 4, 4, 4], data = map int [0..<256]\<rparr>" 2 0 1 1 0 1 0 0 1]
  by (simp add: nd_get_def)


text \<open>
  Against claim C7 as stated (a factor of 2 and a sign flip applied by the transform):
  for one orbital the two flavour orders coincide and the tensor comes back unchanged,
  the entry 1 as 1 and not as -2.
\<close>

theorem U_transform_no_factor_counterexample:
  "U_transform \<lparr>shape = [2, 2, 2, 2], data = [1, 2, 3, 4, 5, 6, 7, 8, 9, 10, 11, 12, 13, 14, 15, 16 :: int]\<rparr>
     = Inr (1, \<lparr>shape = [2, 2, 2, 2],
                data = [1, 2, 3, 4, 5, 6, 7, 8, 9, 10, 11, 12, 13, 14, 15, 16]\<rparr>)"
  by (simp add: U_transform_def reshape_def transpose_nd_def upt_rec)

section \<open>The hybridization function\<close>

lemma flip_axis0_get:
  assumes shp: "shape a = n # rest" and i: "i < n" and r: "in_bounds rest r"
  shows "nd_get (flip_axis0 a) (i # r) = nd_get a ((n - 1 - i) # r)"
proof -
  have b: "in_bounds (shape a) (i # r)" using shp i r by simp
  have lt: "ravel (shape a) (i # r) < prod_list (shape a)" by (rule ravel_lt [OF b])
  have un: "unravel (shape a) (ravel (shape a) (i # r)) = i # r" by (rule unravel_ravel [OF b])
  have "nd_get (flip_axis0 a) (i # r) = data a ! ravel (shape a) ((hd (shape a) - 1 - i) # r)"
    unfolding nd_get_def flip_axis0_def using lt by (simp add: un)
  also have "\<dots> = data a ! ravel (shape a) ((n - 1 - i) # r)"
    by (simp add: shp)
  finally show ?thesis by (simp add: nd_get_def)
qed

lemma shape_flip_axis0 [simp]: "shape (flip_axis0 a) = shape a"
  by (simp add: flip_axis0_def)

lemma shape_nd_neg [simp]: "shape (nd_neg a) = shape a"
  by (simp add: nd_neg_def)

lemma length_flip_axis0: "length (data (flip_axis0 a)) = prod_list (shape a)"
  by (simp add: flip_axis0_def)

lemma nd_neg_get:
  "ravel (shape a) idx < length (data a) \<Longrightarrow> nd_get (nd_neg a) idx = - nd_get a idx"
  by (simp add: nd_neg_def nd_get_def)

lemma hole_propagator_entry:
  assumes k: "k < length D" and blk: "D ! k = (bl, d)"
    and shp: "shape d = Ntau # rest" and i: "i < Ntau" and r: "in_bounds rest r"
  shows "\<exists>d'. hole_propagator D ! k = (bl, d') \<and> shape d' = shape d \<and>
           nd_get d' (i # r) = - nd_get d ((Ntau - 1 - i) # r)"
proof -
  let ?f = "flip_axis0 d"
  have hp: "hole_propagator D ! k = (bl, nd_neg ?f)"
    using k blk by (simp add: hole_propagator_def)
  have b: "in_bounds (shape ?f) (i # r)" using shp i r by simp
  have "ravel (shape ?f) (i # r) < prod_list (shape ?f)" by (rule ravel_lt [OF b])
  then have lt: "ravel (shape ?f) (i # r) < length (data ?f)"
    by (simp add: length_flip_axis0)
  have "nd_get (nd_neg ?f) (i # r) = - nd_get ?f (i # r)"
    by (rule nd_neg_get [OF lt])
  also have "\<dots> = - nd_get d ((Ntau - 1 - i) # r)"
    by (simp add: flip_axis0_get [OF shp i r])
  finally show ?thesis using hp by simp
qed

lemma length_hole_propagator: "length (hole_propagator D) = length D"
  by (simp add: hole_propagator_def)

text \<open>
  Claim C8. After lines 166-167, in every block of \<^verbatim>\<open>self.Delta_tau\<close> with Ntau time
  points, the value at time index i (and any target indices r) is minus the original
  value at time index Ntau - 1 - i; names and shapes of the blocks are kept.
\<close>

theorem hole_propagator_time_reversal:
  assumes "k < length D" and "D ! k = (bl, d)"
    and "shape d = Ntau # rest" and "i < Ntau" and "in_bounds rest r"
  shows "\<exists>d'. hole_propagator D ! k = (bl, d') \<and> shape d' = shape d \<and>
           nd_get d' (i # r) = - nd_get d ((Ntau - 1 - i) # r)"
  using assms by (rule hole_propagator_entry)


text \<open>The theorem at a block with three time points.\<close>

theorem hole_propagator_time_reversal_witness:
  "\<exists>d'. hole_propagator [(''up'', \<lparr>shape = [3, 1, 1], data = [10, 20, 30 :: int]\<rparr>)] ! 0 = (''up'', d') \<and>
        shape d' = [3, 1, 1] \<and> nd_get d' [0, 0, 0] = - 30"
  using hole_propagator_time_reversal
          [of 0 "[(''up'', \<lparr>shape = [3, 1, 1], data = [10, 20, 30 :: int]\<rparr>)]" "''up''"
              "\<lparr>shape = [3, 1, 1], data = [10, 20, 30 :: int]\<rparr>" 3 "[1, 1]" 0 "[0, 0]"]
  by (simp add: nd_get_def)


section \<open>The diagonal-fill expansion\<close>

lemma shape_nd_zeros [simp]: "shape (nd_zeros shp) = shp"
  by (simp add: nd_zeros_def)

lemma length_nd_zeros [simp]: "length (data (nd_zeros shp)) = prod_list shp"
  by (simp add: nd_zeros_def)

lemma nd_zeros_get: "in_bounds shp idx \<Longrightarrow> nd_get (nd_zeros shp) idx = 0"
  using ravel_lt [of shp idx] by (simp add: nd_zeros_def nd_get_def)

lemma diag_inner:
  assumes bs: "shape bs_array = B # S # rest"
    and b: "b < B" and q: "in_bounds [B, S, B, S] [q1, q2, q3, q4]" and r: "in_bounds rest r"
  shows "length (data arr) = prod_list (shape arr) \<Longrightarrow> shape arr = [B, S, B, S] @ rest \<Longrightarrow>
         set ss \<subseteq> {..<S} \<Longrightarrow>
         (let out = fold (\<lambda>s arr. set_sub arr [b, s, b, s] (data (get_sub bs_array [b, s]))) ss arr
          in length (data out) = prod_list (shape out) \<and> shape out = [B, S, B, S] @ rest \<and>
             nd_get out ([q1, q2, q3, q4] @ r)
               = (if q1 = b \<and> q3 = b \<and> q2 = q4 \<and> q2 \<in> set ss
                  then nd_get bs_array ([b, q2] @ r) else nd_get arr ([q1, q2, q3, q4] @ r)))"
proof (induction ss arbitrary: arr)
  case Nil
  then show ?case by simp
next
  case (Cons s ss)
  let ?arr' = "set_sub arr [b, s, b, s] (data (get_sub bs_array [b, s]))"
  have s: "s < S" and ss: "set ss \<subseteq> {..<S}" using Cons.prems(3) by simp_all
  have p: "in_bounds [B, S, B, S] [b, s, b, s]" using b s by simp
  have wf': "length (data ?arr') = prod_list (shape ?arr')" using Cons.prems(1) by simp
  have shp': "shape ?arr' = [B, S, B, S] @ rest" using Cons.prems(2) by simp
  have bs': "shape bs_array = [B, S] @ rest" using bs by simp
  have v: "data (get_sub bs_array [b, s]) ! ravel rest r = nd_get bs_array ([b, s] @ r)"
    by (rule get_sub_data [OF bs' _ r]) simp
  have step: "nd_get ?arr' ([q1, q2, q3, q4] @ r)
                = (if [q1, q2, q3, q4] = [b, s, b, s] then nd_get bs_array ([b, s] @ r)
                   else nd_get arr ([q1, q2, q3, q4] @ r))"
    unfolding set_sub_get [OF Cons.prems(1) Cons.prems(2) p q r] v ..
  from Cons.IH [OF wf' shp' ss] step show ?case
    by (auto simp: Let_def)
qed

lemma diag_outer:
  assumes bs: "shape bs_array = B # S # rest"
    and q: "in_bounds [B, S, B, S] [q1, q2, q3, q4]" and r: "in_bounds rest r"
  shows "length (data arr) = prod_list (shape arr) \<Longrightarrow> shape arr = [B, S, B, S] @ rest \<Longrightarrow>
         set bb \<subseteq> {..<B} \<Longrightarrow>
         (let out = fold (\<lambda>b. fold (\<lambda>s arr. set_sub arr [b, s, b, s] (data (get_sub bs_array [b, s])))
                                 [0..<S]) bb arr
          in length (data out) = prod_list (shape out) \<and> shape out = [B, S, B, S] @ rest \<and>
             nd_get out ([q1, q2, q3, q4] @ r)
               = (if q1 = q3 \<and> q2 = q4 \<and> q1 \<in> set bb
                  then nd_get bs_array ([q1, q2] @ r) else nd_get arr ([q1, q2, q3, q4] @ r)))"
proof (induction bb arbitrary: arr)
  case Nil
  then show ?case by simp
next
  case (Cons b bb)
  let ?arr' = "fold (\<lambda>s arr. set_sub arr [b, s, b, s] (data (get_sub bs_array [b, s]))) [0..<S] arr"
  have b: "b < B" and bb: "set bb \<subseteq> {..<B}" using Cons.prems(3) by simp_all
  have q2: "q2 < S" using q by simp
  have inner: "length (data ?arr') = prod_list (shape ?arr') \<and> shape ?arr' = [B, S, B, S] @ rest \<and>
             nd_get ?arr' ([q1, q2, q3, q4] @ r)
               = (if q1 = b \<and> q3 = b \<and> q2 = q4 \<and> q2 \<in> set [0..<S]
                  then nd_get bs_array ([b, q2] @ r) else nd_get arr ([q1, q2, q3, q4] @ r))"
  proof -
    have sub: "set [0..<S] \<subseteq> {..<S}" by auto
    show ?thesis
      using diag_inner [OF bs b q r Cons.prems(1) Cons.prems(2) sub]
      unfolding Let_def by blast
  qed
  from inner have wf': "length (data ?arr') = prod_list (shape ?arr')"
    and shp': "shape ?arr' = [B, S, B, S] @ rest" by simp_all
  from Cons.IH [OF wf' shp' bb] inner q2 show ?case
    by (auto simp: Let_def)
qed

lemma bs_diagflat_run:
  assumes bs: "shape bs_array = B # S # rest"
  shows "bs_diagflat bs_array =
           Inr (fold (\<lambda>b. fold (\<lambda>s arr. set_sub arr [b, s, b, s] (data (get_sub bs_array [b, s])))
                              [0..<S])
                    [0..<B] (nd_zeros ([B, S, B, S] @ rest)))"
  by (simp add: bs_diagflat_def bs Let_def)

lemma bs_diagflat_entry:
  assumes bs: "shape bs_array = B # S # rest"
    and q: "b < B" "s < S" "b' < B" "s' < S" and r: "in_bounds rest r"
  shows "\<exists>out. bs_diagflat bs_array = Inr out \<and> shape out = B # S # B # S # rest \<and>
           length (data out) = prod_list (shape out) \<and>
           nd_get out (b # s # b' # s' # r)
             = (if b = b' \<and> s = s' then nd_get bs_array (b # s # r) else 0)"
proof -
  let ?z = "nd_zeros ([B, S, B, S] @ rest) :: 'a ndarray"
  have qb: "in_bounds [B, S, B, S] [b, s, b', s']" using q by simp
  have z: "nd_get ?z ([b, s, b', s'] @ r) = 0"
    by (rule nd_zeros_get) (use q r in simp)
  have sub: "set [0..<B] \<subseteq> {..<B}" by auto
  have wfz: "length (data ?z) = prod_list (shape ?z)" by simp
  have shz: "shape ?z = [B, S, B, S] @ rest" by simp
  from diag_outer [OF bs qb r wfz shz sub] z q show ?thesis
    unfolding bs_diagflat_run [OF bs] Let_def by auto
qed

lemma fold_preserve:
  assumes "\<And>x a. P (f x a) = P a"
  shows "P (fold f xs a) = P a"
  by (induction xs arbitrary: a) (simp_all add: assms)

lemma diag_fold_shape:
  "shape (fold (\<lambda>b. fold (\<lambda>s arr. set_sub arr [b, s, b, s] (v b s)) ss) bb arr) = shape arr"
  by (rule fold_preserve, rule fold_preserve) simp

lemma diag_fold_length:
  "length (data (fold (\<lambda>b. fold (\<lambda>s arr. set_sub arr [b, s, b, s] (v b s)) ss) bb arr))
     = length (data arr)"
  by (rule fold_preserve [where P = "\<lambda>a. length (data a)"],
      rule fold_preserve [where P = "\<lambda>a. length (data a)"]) simp

lemma unravel_bs:
  assumes "k < prod_list (B # S # rest)"
  shows "\<exists>b s r. unravel (B # S # rest) k = b # s # r \<and> b < B \<and> s < S \<and> in_bounds rest r"
  using in_bounds_unravel [OF assms] by simp

lemma bs_diagflat_roundtrip_aux:
  assumes wf: "wf_nd bs_array" and bs: "shape bs_array = B # S # rest"
  shows "\<exists>out. bs_diagflat bs_array = Inr out \<and> shape out = B # S # B # S # rest \<and> wf_nd out \<and>
           (\<forall>b s b' s' r. b < B \<and> s < S \<and> b' < B \<and> s' < S \<and> in_bounds rest r \<longrightarrow>
              nd_get out (b # s # b' # s' # r)
                = (if b = b' \<and> s = s' then nd_get bs_array (b # s # r) else 0)) \<and>
           bs_diagonal out = bs_array"
proof -
  let ?out = "fold (\<lambda>b. fold (\<lambda>s arr. set_sub arr [b, s, b, s] (data (get_sub bs_array [b, s])))
                              [0..<S])
                    [0..<B] (nd_zeros ([B, S, B, S] @ rest))"
  have run: "bs_diagflat bs_array = Inr ?out" by (rule bs_diagflat_run [OF bs])
  have shp: "shape ?out = B # S # B # S # rest"
    by (simp add: diag_fold_shape)
  have wfo: "wf_nd ?out"
    unfolding wf_nd_def diag_fold_length diag_fold_shape by simp
  have entry: "nd_get ?out (b # s # b' # s' # r)
                 = (if b = b' \<and> s = s' then nd_get bs_array (b # s # r) else 0)"
    if "b < B" "s < S" "b' < B" "s' < S" "in_bounds rest r" for b s b' s' r
    using bs_diagflat_entry [OF bs that] unfolding run by simp
  have len: "length (data bs_array) = prod_list (B # S # rest)"
    using wf by (simp add: wf_nd_def bs)
  have pt: "(case unravel (B # S # rest) k of
               b # s # r \<Rightarrow> nd_get ?out (b # s # b # s # r)
             | _ \<Rightarrow> nd_get ?out []) = data bs_array ! k"
    if k: "k < prod_list (B # S # rest)" for k
  proof -
    from unravel_bs [OF k] obtain b s r where
      u: "unravel (B # S # rest) k = b # s # r" and b: "b < B" "s < S" "in_bounds rest r"
      by blast
    have "ravel (B # S # rest) (unravel (B # S # rest) k) = k" by (rule ravel_unravel [OF k])
    then have "nd_get bs_array (b # s # r) = data bs_array ! k"
      unfolding u by (simp add: nd_get_def bs)
    then show ?thesis
      unfolding u using entry [OF b(1,2) b(1,2) b(3)] by simp
  qed
  have "data (bs_diagonal ?out) = map (\<lambda>k. data bs_array ! k) [0..<length (data bs_array)]"
    unfolding bs_diagonal_def shp list.case len using pt by simp
  then have d: "data (bs_diagonal ?out) = data bs_array"
    by (simp add: map_nth)
  have s: "shape (bs_diagonal ?out) = shape bs_array"
    unfolding bs_diagonal_def shp list.case bs by simp
  have rt: "bs_diagonal ?out = bs_array"
    using d s by (simp add: ndarray.equality)
  from run shp wfo entry rt show ?thesis by blast
qed

text \<open>
  Claim C6. For a well-formed array of shape (B, S, ...), \<^verbatim>\<open>bs_diagflat\<close> returns an
  array of shape (B, S, B, S, ...) whose entry at [b, s, b', s', ...] is the entry
  [b, s, ...] of the argument when b = b' and s = s', and exactly zero otherwise;
  taking the diagonal [b, s, b, s, ...] of the result gives the argument back.
\<close>

theorem bs_diagflat_roundtrip:
  assumes "wf_nd bs_array" and "shape bs_array = B # S # rest"
  shows "\<exists>out. bs_diagflat bs_array = Inr out \<and> shape out = B # S # B # S # rest \<and> wf_nd out \<and>
           (\<forall>b s b' s' r. b < B \<and> s < S \<and> b' < B \<and> s' < S \<and> in_bounds rest r \<longrightarrow>
              nd_get out (b # s # b' # s' # r)
                = (if b = b' \<and> s = s' then nd_get bs_array (b # s # r) else 0)) \<and>
           bs_diagonal out = bs_array"
  using assms by (rule bs_diagflat_roundtrip_aux)


text \<open>The theorem at a 2 x 2 array with one trailing axis.\<close>

theorem bs_diagflat_roundtrip_witness:
  "\<exists>out. bs_diagflat \<lparr>shape = [2, 2, 1], data = [3, 5, 7, 9 :: int]\<rparr> = Inr out \<and>
         shape out = [2, 2, 2, 2, 1] \<and> wf_nd out \<and>
         nd_get out [1, 0, 1, 0, 0] = 7 \<and> nd_get out [1, 0, 0, 1, 0] = 0 \<and>
         bs_diagonal out = \<lparr>shape = [2, 2, 1], data = [3, 5, 7, 9]\<rparr>"
proof -
  let ?a = "\<lparr>shape = [2, 2, 1], data = [3, 5, 7, 9 :: int]\<rparr>"
  have wf: "wf_nd ?a" by (simp add: wf_nd_def)
  have shp: "shape ?a = 2 # 2 # [1]" by simp
  from bs_diagflat_roundtrip [OF wf shp] obtain out where
    run: "bs_diagflat ?a = Inr out" and so: "shape out = [2, 2, 2, 2, 1]" and wo: "wf_nd out"
    and entry: "\<And>b s b' s' r. b < 2 \<and> s < 2 \<and> b' < 2 \<and> s' < 2 \<and> in_bounds [1] r \<Longrightarrow>
              nd_get out (b # s # b' # s' # r)
                = (if b = b' \<and> s = s' then nd_get ?a (b # s # r) else 0)"
    and rt: "bs_diagonal out = ?a"
    by blast
  have e1: "nd_get out [1, 0, 1, 0, 0] = 7"
    using entry [of 1 0 1 0 "[0]"] by (simp add: in_bounds_def nd_get_def)
  have e2: "nd_get out [1, 0, 0, 1, 0] = 0"
    using entry [of 1 0 0 1 "[0]"] by (simp add: in_bounds_def)
  from run so wo e1 e2 rt show ?thesis by blast
qed


section \<open>Lemmas on dictionaries\<close>

lemma map_of_dict_set:
  "map_of (dict_set d key v) k = (if k = key then Some v else map_of d k)"
  by (induction d key v rule: dict_set.induct) auto

lemma dict_get_set:
  "dict_get (dict_set d key v) k = (if k = key then Inr v else dict_get d k)"
  by (simp add: dict_get_def map_of_dict_set)

lemma dict_get_set_QMC:
  "dict_get (QMC (set_QMC key v c)) k = (if k = key then Inr v else dict_get (QMC c) k)"
  by (simp add: set_QMC_def dict_get_set)

section \<open>Lemmas on floats\<close>

text \<open>
  Facts on \<open>round_double\<close>: integers below \<open>2 ^ 53\<close> are floats, and the truncated
  quotient of a float below \<open>2 ^ 53\<close> by a positive integer is the floor of the exact
  quotient.
\<close>

lemma pow2_pos [simp]: "0 < pow2 e"
  by (simp add: pow2_def)

lemma pow2_nat: "0 \<le> e \<Longrightarrow> pow2 e = 2 ^ nat e"
  by (simp add: pow2_def)

lemma pow2_powr: "pow2 e = 2 powr (real_of_int e)"
proof (cases "0 \<le> e")
  case True
  then show ?thesis by (simp add: pow2_def powr_realpow [symmetric])
next
  case False
  then have "2 powr (real_of_int e) = 1 / 2 powr (real (nat (- e)))"
    by (simp add: powr_minus_divide [symmetric])
  also have "\<dots> = 1 / 2 ^ nat (- e)" by (simp add: powr_realpow)
  finally show ?thesis using False by (simp add: pow2_def)
qed

lemma pow2_add: "pow2 (a + b) = pow2 a * pow2 b"
  by (simp add: pow2_powr powr_add)

lemma pow2_mono: "a \<le> b \<Longrightarrow> pow2 a \<le> pow2 b"
  by (simp add: pow2_powr)

lemma pow2_less_iff: "pow2 a < pow2 b \<longleftrightarrow> a < b"
  by (simp add: pow2_powr)

lemma pow2_0 [simp]: "pow2 0 = 1"
  by (simp add: pow2_def)

lemma pow2_1 [simp]: "pow2 1 = 2"
  by (simp add: pow2_def)

lemma pow2_Suc: "pow2 (e + 1) = 2 * pow2 e"
  by (simp add: pow2_add)

lemma binary_exponent_bounds:
  assumes "0 < x"
  shows "pow2 (binary_exponent x) \<le> x \<and> x < pow2 (binary_exponent x + 1)"
proof (cases "1 \<le> x")
  case True
  let ?n = "\<lfloor>x\<rfloor>"
  have n: "0 < ?n" using True by simp
  from bitlen_bounds [OF n] have lo: "2 ^ nat (bitlen ?n - 1) \<le> ?n" and hi: "?n < 2 ^ nat (bitlen ?n)"
    by simp_all
  have b1: "1 \<le> bitlen ?n" using n by (simp add: bitlen_alt_def)
  have e: "binary_exponent x = bitlen ?n - 1" using True by (simp add: binary_exponent_def)
  have "real_of_int (2 ^ nat (bitlen ?n - 1)) \<le> real_of_int ?n" using lo by linarith
  moreover have "real_of_int ?n \<le> x" by simp
  ultimately have "real_of_int (2 ^ nat (bitlen ?n - 1)) \<le> x" by linarith
  then have l: "pow2 (bitlen ?n - 1) \<le> x"
    using b1 by (simp add: pow2_nat)
  have "?n + 1 \<le> 2 ^ nat (bitlen ?n)" using hi by simp
  then have "real_of_int (?n + 1) \<le> real_of_int (2 ^ nat (bitlen ?n))" by linarith
  then have "real_of_int ?n + 1 \<le> 2 ^ nat (bitlen ?n)" by simp
  moreover have "x < real_of_int ?n + 1" by linarith
  ultimately have "x < 2 ^ nat (bitlen ?n)" by linarith
  then have h: "x < pow2 (bitlen ?n)"
    using b1 by (simp add: pow2_nat)
  from l h show ?thesis by (simp add: e)
next
  case False
  let ?k = "\<lceil>1 / x\<rceil>"
  have x1: "x < 1" using False by simp
  have inv: "1 < 1 / x" using assms x1 by simp
  then have k2: "2 \<le> ?k" by linarith
  then have k1: "0 < ?k - 1" by simp
  from bitlen_bounds [OF k1] have lo: "2 ^ nat (bitlen (?k - 1) - 1) \<le> ?k - 1"
    and hi: "?k - 1 < 2 ^ nat (bitlen (?k - 1))"
    by simp_all
  let ?b = "bitlen (?k - 1)"
  have b1: "1 \<le> ?b" using k1 by (simp add: bitlen_alt_def)
  have e: "binary_exponent x = - ?b" using False by (simp add: binary_exponent_def)

  have "?k \<le> 2 ^ nat ?b" using hi by simp
  then have "real_of_int ?k \<le> 2 ^ nat ?b" by (metis of_int_le_iff of_int_numeral of_int_power)
  moreover have "1 / x \<le> real_of_int ?k" by linarith
  ultimately have "1 / x \<le> 2 ^ nat ?b" by linarith
  then have "1 \<le> 2 ^ nat ?b * x" using assms by (simp add: field_simps)
  then have l: "pow2 (- ?b) \<le> x"
    using b1 by (simp add: pow2_def field_simps)

  have "real_of_int (2 ^ nat (?b - 1)) \<le> real_of_int (?k - 1)" using lo by linarith
  moreover have "real_of_int (?k - 1) < 1 / x" by linarith
  ultimately have "2 ^ nat (?b - 1) < 1 / x" by simp
  then have "2 ^ nat (?b - 1) * x < 1" using assms by (simp add: field_simps)
  then have h: "x < pow2 (- ?b + 1)"
  proof (cases "?b = 1")
    case True
    then show ?thesis using x1 by simp
  next
    case False
    with b1 have "- ?b + 1 < 0" by simp
    moreover have "nat (- (- ?b + 1)) = nat (?b - 1)" by simp
    ultimately show ?thesis
      using \<open>2 ^ nat (?b - 1) * x < 1\<close> by (simp add: pow2_def field_simps)
  qed
  from l h show ?thesis by (simp add: e)
qed


lemma binary_exponent_less: "0 < x \<Longrightarrow> x < pow2 b \<Longrightarrow> binary_exponent x < b"
  using binary_exponent_bounds [of x] pow2_less_iff [of "binary_exponent x" b] by linarith

lemma binary_exponent_ge: "0 < x \<Longrightarrow> pow2 b \<le> x \<Longrightarrow> b \<le> binary_exponent x"
  using binary_exponent_bounds [of x] pow2_less_iff [of b "binary_exponent x + 1"] by linarith

lemma round_half_even_int [simp]: "round_half_even (of_int k) = k"
  by (simp add: round_half_even_def)

lemma round_half_even_ge: "of_int k \<le> r \<Longrightarrow> k \<le> round_half_even r"
proof -
  assume "of_int k \<le> r"
  then have "k \<le> \<lfloor>r\<rfloor>" by (simp add: le_floor_iff)
  then show ?thesis by (simp add: round_half_even_def Let_def)
qed

lemma round_half_even_less: "r + 1 / 2 < of_int k \<Longrightarrow> round_half_even r < k"
proof -
  assume a: "r + 1 / 2 < of_int k"
  have "of_int \<lfloor>r\<rfloor> \<le> r" by simp
  with a have "real_of_int \<lfloor>r\<rfloor> < of_int k" by linarith
  then have f: "\<lfloor>r\<rfloor> < k" by simp
  show ?thesis
  proof (cases "r - of_int \<lfloor>r\<rfloor> < 1 / 2")
    case True
    then show ?thesis using f by (simp add: round_half_even_def Let_def)
  next
    case False
    with a have "real_of_int \<lfloor>r\<rfloor> + 1 < of_int k" by linarith
    then have "real_of_int (\<lfloor>r\<rfloor> + 1) < of_int k" by simp
    then have "\<lfloor>r\<rfloor> + 1 < k" by (simp only: of_int_less_iff)
    then show ?thesis using f by (simp add: round_half_even_def Let_def)
  qed
qed

lemma int_over_pow2: "e \<le> 0 \<Longrightarrow> of_int k / pow2 e = of_int (k * 2 ^ nat (- e))"
  by (cases "e = 0") (simp_all add: pow2_def)

lemma ulp_pos [simp]: "0 < ulp x"
  by (simp add: ulp_def)

lemma ulp_neq0 [simp]: "ulp x \<noteq> 0"
  using ulp_pos [of x] by linarith

lemma ulp_exponent:
  assumes "0 < x" "x < 2 ^ 53"
  shows "\<exists>j\<le>0. ulp x = pow2 j"
proof -
  have "x < pow2 53" using assms by (simp add: pow2_def)
  then have "binary_exponent x < 53" using assms by (simp add: binary_exponent_less)
  then have "max (binary_exponent x) (- 1022) - 52 \<le> 0" by simp
  moreover have "\<bar>x\<bar> = x" using assms by simp
  ultimately show ?thesis
    unfolding ulp_def by (intro exI [of _ "max (binary_exponent x) (- 1022) - 52"]) simp
qed

lemma ulp_normal:
  assumes "1 / 2 \<le> x"
  shows "ulp x = pow2 (binary_exponent x) * pow2 (- 52)"
proof -
  have x: "0 < x" "\<bar>x\<bar> = x" using assms by simp_all
  have "pow2 (- 1) \<le> x" using assms by (simp add: pow2_def)
  then have "- 1 \<le> binary_exponent x" using x by (simp add: binary_exponent_ge)
  then have "max (binary_exponent x) (- 1022) = binary_exponent x" by simp
  then show ?thesis using pow2_add [of "binary_exponent x" "- 52"] by (simp add: ulp_def x)
qed

lemma round_double_0 [simp]: "round_double 0 = 0"
  by (simp add: round_double_def)

lemma round_double_of_int:
  assumes "0 \<le> k" "k < 2 ^ 53"
  shows "round_double (of_int k) = of_int k"
proof (cases "k = 0")
  case True
  then show ?thesis by simp
next
  case False
  let ?x = "real_of_int k"
  have x: "0 < ?x" using assms False by simp
  have "real_of_int k < real_of_int (2 ^ 53)" using assms by (simp only: of_int_less_iff)
  then have "?x < 2 ^ 53" by simp
  with x obtain j where j: "j \<le> 0" "ulp ?x = pow2 j" using ulp_exponent by blast
  have "?x / ulp ?x = of_int (k * 2 ^ nat (- j))" using j by (simp add: int_over_pow2)
  then have "round_half_even (?x / ulp ?x) = k * 2 ^ nat (- j)"
    by (simp only: round_half_even_int)
  then have "round_double ?x = of_int (k * 2 ^ nat (- j)) * ulp ?x"
    using False by (simp add: round_double_def)
  also have "\<dots> = (?x / ulp ?x) * ulp ?x" using j by (simp add: int_over_pow2)
  also have "\<dots> = ?x" by simp
  finally show ?thesis .
qed

lemma round_double_of_nat: "n < 2 ^ 53 \<Longrightarrow> round_double (real n) = real n"
  using round_double_of_int [of "int n"] by simp

lemma floor_round_double_quotient:
  assumes x0: "0 \<le> x" and dbl: "round_double x = x" and x53: "x < 2 ^ 53" and C: "0 < C"
  shows "\<lfloor>round_double (x / real C)\<rfloor> = \<lfloor>x / real C\<rfloor>"
proof (cases "x = 0")
  case True
  then show ?thesis by simp
next
  case False
  define q where "q = x / real C"
  define n where "n = \<lfloor>q\<rfloor>"
  have xne: "x \<noteq> 0" using False .
  have xpos: "0 < x" using x0 False by simp
  have Cr: "1 \<le> real C" using C by simp
  have qpos: "0 < q" using xpos C by (simp add: q_def)
  have qx: "q \<le> x"
  proof -
    have "x / real C \<le> x / 1" using Cr x0 by (intro divide_left_mono) simp_all
    then show ?thesis by (simp add: q_def)
  qed
  then have q53: "q < 2 ^ 53" using x53 by simp
  from ulp_exponent [OF qpos q53] obtain j where j: "j \<le> 0" "ulp q = pow2 j" by blast
  have rd: "round_double q = of_int (round_half_even (q / ulp q)) * ulp q"
    using qpos by (simp add: round_double_def)
  have nq: "of_int n \<le> q" "q < of_int n + 1" by (simp_all add: n_def)

  have "of_int n / ulp q \<le> q / ulp q"
    by (rule divide_right_mono [OF nq(1) less_imp_le [OF ulp_pos]])
  then have "of_int (n * 2 ^ nat (- j)) \<le> q / ulp q" using j by (simp add: int_over_pow2)
  then have "n * 2 ^ nat (- j) \<le> round_half_even (q / ulp q)" by (rule round_half_even_ge)
  then have "real_of_int (n * 2 ^ nat (- j)) \<le> of_int (round_half_even (q / ulp q))"
    by (simp only: of_int_le_iff)
  then have l1: "real_of_int (n * 2 ^ nat (- j)) * ulp q \<le> round_double q"
    unfolding rd by (simp add: mult_right_mono)
  have l2: "real_of_int (n * 2 ^ nat (- j)) * ulp q = of_int n"
  proof -
    have "real_of_int (n * 2 ^ nat (- j)) = of_int n / ulp q"
      using int_over_pow2 [OF j(1), of n] j by simp
    then show ?thesis by (simp only: nonzero_divide_eq_eq ulp_neq0 not_False_eq_True divide_divide_eq_left times_divide_eq_left nonzero_mult_div_cancel_right)
  qed
  have lower: "of_int n \<le> round_double q" using l1 unfolding l2 .

  have gap: "q + ulp q / 2 < of_int n + 1"
  proof (cases "q < 1 / 2")
    case True
    have "ulp q \<le> pow2 0" unfolding j by (rule pow2_mono) (rule j)
    then have "ulp q \<le> 1" by simp
    moreover have "0 \<le> n" using qpos by (simp add: n_def)
    then have "0 \<le> real_of_int n" by simp
    ultimately show ?thesis using True by linarith
  next
    case False
    then have qh: "1 / 2 \<le> q" by simp
    have "q * real C = x" using C by (simp add: q_def)
    then have xh: "1 / 2 \<le> x" using qh qx by linarith
    have uq: "ulp q \<le> q * pow2 (- 52)"
      using binary_exponent_bounds [OF qpos] by (simp add: ulp_normal [OF qh] mult_right_mono)
    have "x < pow2 (binary_exponent x + 1)" using binary_exponent_bounds [OF xpos] by simp
    then have "x < 2 * pow2 (binary_exponent x)" by (simp add: pow2_Suc)
    then have "x * pow2 (- 52) < 2 * pow2 (binary_exponent x) * pow2 (- 52)"
      by (simp add: mult_strict_right_mono)
    then have ux: "x * pow2 (- 52) < 2 * ulp x" by (simp add: ulp_normal [OF xh])
    from ulp_exponent [OF xpos x53] obtain i where i: "i \<le> 0" "ulp x = pow2 i" by blast
    define K where "K = round_half_even (x / ulp x)"
    have xK: "x = of_int K * ulp x" using dbl xne by (simp add: round_double_def K_def)
    define M where "M = (int C * (n + 1)) * 2 ^ nat (- i)"
    have "real_of_int (int C * (n + 1)) / ulp x = of_int M"
      unfolding M_def i(2) by (rule int_over_pow2 [OF i(1)])
    then have CM: "real_of_int (int C * (n + 1)) = of_int M * ulp x"
      by (simp only: nonzero_divide_eq_eq ulp_neq0 not_False_eq_True)
    have "x < real C * (of_int n + 1)" using nq C by (simp add: q_def field_simps)
    then have "x < of_int (int C * (n + 1))" by simp
    then have "of_int K * ulp x < of_int M * ulp x" using xK CM by simp
    then have "real_of_int K < of_int M" by simp
    then have "K < M" by (simp only: of_int_less_iff)
    then have "K + 1 \<le> M" by simp
    then have "real_of_int (K + 1) \<le> of_int M" by (simp only: of_int_le_iff)
    then have "real_of_int (K + 1) * ulp x \<le> of_int M * ulp x" by (simp add: mult_right_mono)
    then have "x + ulp x \<le> of_int (int C * (n + 1))" using xK CM by (simp add: algebra_simps)
    then have step: "x + ulp x \<le> real C * (of_int n + 1)" by simp
    have "real C * (ulp q / 2) \<le> real C * (q * pow2 (- 52) / 2)" using uq C by simp
    also have "\<dots> = x * pow2 (- 52) / 2" using C by (simp add: q_def)
    also have "\<dots> < ulp x" using ux by simp
    finally have "real C * (ulp q / 2) < ulp x" .
    then have "real C * (q + ulp q / 2) < x + ulp x" using C by (simp add: q_def algebra_simps)
    with step have "real C * (q + ulp q / 2) < real C * (of_int n + 1)" by linarith
    then show ?thesis using C by simp
  qed
  have "q / ulp q + 1 / 2 < (of_int n + 1) / ulp q"
  proof -
    have "(q + ulp q / 2) / ulp q < (of_int n + 1) / ulp q"
      using gap by (simp add: divide_strict_right_mono)
    then show ?thesis by (simp add: add_divide_distrib)
  qed
  moreover have "(of_int n + 1) / ulp q = of_int ((n + 1) * 2 ^ nat (- j))"
    using int_over_pow2 [OF j(1), of "n + 1"] j by simp
  ultimately have "round_half_even (q / ulp q) < (n + 1) * 2 ^ nat (- j)"
    by (simp only: round_half_even_less)
  then have "real_of_int (round_half_even (q / ulp q)) < of_int ((n + 1) * 2 ^ nat (- j))"
    by (simp only: of_int_less_iff)
  then have u1: "round_double q < of_int ((n + 1) * 2 ^ nat (- j)) * ulp q"
    unfolding rd by (simp add: mult_strict_right_mono)
  have u2: "real_of_int ((n + 1) * 2 ^ nat (- j)) * ulp q = of_int n + 1"
  proof -
    have "real_of_int ((n + 1) * 2 ^ nat (- j)) = (of_int n + 1) / ulp q"
      using int_over_pow2 [OF j(1), of "n + 1"] j by simp
    then show ?thesis by (simp only: nonzero_divide_eq_eq ulp_neq0 not_False_eq_True divide_divide_eq_left times_divide_eq_left nonzero_mult_div_cancel_right)
  qed
  have upper: "round_double q < of_int n + 1" using u1 unfolding u2 .
  from lower upper have "\<lfloor>round_double q\<rfloor> = n" by (simp add: floor_unique)
  then show ?thesis by (simp add: q_def n_def)
qed


lemma overflows_iff: "overflows x \<longleftrightarrow> 2 ^ 1024 \<le> \<bar>x\<bar>"
proof (cases "x = 0")
  case True
  then show ?thesis by (simp add: overflows_def)
next
  case False
  then have p: "0 < \<bar>x\<bar>" by simp
  have e: "pow2 1024 = 2 ^ 1024" by (simp add: pow2_def)
  show ?thesis
  proof
    assume "overflows x"
    then have "1024 \<le> binary_exponent \<bar>x\<bar>" by (simp add: overflows_def)
    then have "pow2 1024 \<le> pow2 (binary_exponent \<bar>x\<bar>)" by (rule pow2_mono)
    also have "\<dots> \<le> \<bar>x\<bar>" using binary_exponent_bounds [OF p] by simp
    finally show "2 ^ 1024 \<le> \<bar>x\<bar>" unfolding e .
  next
    assume "2 ^ 1024 \<le> \<bar>x\<bar>"
    then have "pow2 1024 \<le> \<bar>x\<bar>" unfolding e .
    then have "1024 \<le> binary_exponent \<bar>x\<bar>" using p by (simp add: binary_exponent_ge)
    then show "overflows x" using False by (simp add: overflows_def)
  qed
qed

lemma below_overflow: "0 \<le> x \<Longrightarrow> x < 2 ^ 53 + 1 \<Longrightarrow> \<not> overflows x"
proof -
  assume a: "0 \<le> x" "x < 2 ^ 53 + 1"
  have "(2 :: real) ^ 53 \<le> 2 ^ 1023" by (rule power_increasing) simp_all
  moreover have "(1 :: real) \<le> 2 ^ 1023" by (rule one_le_power) simp
  moreover have "(2 :: real) ^ 1024 = 2 * 2 ^ 1023"
    using power_Suc [of "2 :: real" 1023] by (simp del: power_Suc)
  ultimately show ?thesis unfolding overflows_iff using a by linarith
qed

lemma to_float_exact:
  "0 \<le> x \<Longrightarrow> round_double x = x \<Longrightarrow> x < 2 ^ 53 \<Longrightarrow> to_float x = Inr x"
  using below_overflow [of x] by (simp add: to_float_def)

lemma int_of_quotient_exact:
  assumes x0: "0 \<le> x" and dbl: "round_double x = x" and x53: "x < 2 ^ 53"
    and C: "0 < C" and C53: "C < 2 ^ 53"
  shows "int_of_quotient x C = Inr \<lfloor>x / real C\<rfloor>"
proof -
  let ?q = "x / real C"
  have "real C < real (2 ^ 53)" using C53 by (simp only: of_nat_less_iff)
  then have Cr: "real C < 2 ^ 53" by simp
  have fC: "to_float (real C) = Inr (real C)"
    using Cr C53 by (simp add: to_float_exact round_double_of_nat)
  have fx: "to_float x = Inr x" using x0 dbl x53 by (rule to_float_exact)
  have dv: "float_div x (real C) = Inr (round_double ?q)" using C by (simp add: float_div_def)
  have fl: "\<lfloor>round_double ?q\<rfloor> = \<lfloor>?q\<rfloor>"
    using x0 dbl x53 C by (rule floor_round_double_quotient)
  have q0: "0 \<le> ?q" using x0 by simp
  then have "0 \<le> \<lfloor>round_double ?q\<rfloor>" unfolding fl by simp
  then have r0: "0 \<le> round_double ?q" by simp
  have "?q \<le> x / 1" using C x0 by (intro divide_left_mono) simp_all
  then have "?q < 2 ^ 53" using x53 by simp
  moreover have "real_of_int \<lfloor>?q\<rfloor> \<le> ?q" by simp
  moreover have "round_double ?q < real_of_int \<lfloor>round_double ?q\<rfloor> + 1" by linarith
  ultimately have "round_double ?q < 2 ^ 53 + 1" unfolding fl by linarith
  with r0 have "\<not> overflows (round_double ?q)" by (rule below_overflow)
  then have "py_int (round_double ?q) = Inr \<lfloor>?q\<rfloor>" using r0 fl by (simp add: py_int_def)
  then show ?thesis by (simp add: int_of_quotient_def fC fx dv)
qed

section \<open>Failures before the first engine object\<close>

lemma U_transform_cases:
  assumes "shape U = u # us"
  shows "U_transform U = Inl (ValueError ''cannot reshape array'') \<or>
         (\<exists>U'. U_transform U = Inr (u div 2, U'))"
proof -
  let ?n = "u div 2"
  let ?s8 = "[2, ?n, 2, ?n, 2, ?n, 2, ?n]"
  show ?thesis
  proof (cases "prod_list ?s8 = prod_list (shape U)")
    case False
    then have "reshape U ?s8 = Inl (ValueError ''cannot reshape array'')"
      by (simp add: reshape_def)
    then have "U_transform U = Inl (ValueError ''cannot reshape array'')"
      unfolding U_transform_def assms list.case Let_def by simp
    then show ?thesis by simp
  next
    case True
    let ?U1 = "U\<lparr>shape := ?s8\<rparr>"
    let ?U2 = "transpose_nd ?U1 [1, 0, 3, 2, 5, 4, 7, 6]"
    have r1: "reshape U ?s8 = Inr ?U1" using True by (simp add: reshape_def)
    have "map (\<lambda>p. shape ?U1 ! p) [1, 0, 3, 2, 5, 4, 7, 6] = [?n, 2, ?n, 2, ?n, 2, ?n, 2]"
      by simp
    then have r2: "reshape ?U2 [?n * 2, ?n * 2, ?n * 2, ?n * 2]
                     = Inr (?U2\<lparr>shape := [?n * 2, ?n * 2, ?n * 2, ?n * 2]\<rparr>)"
      unfolding reshape_def shape_transpose_nd by simp
    have "U_transform U = Inr (?n, ?U2\<lparr>shape := [?n * 2, ?n * 2, ?n * 2, ?n * 2]\<rparr>)"
      unfolding U_transform_def assms list.case Let_def r1 sum.case r2 ..
    then show ?thesis by blast
  qed
qed

lemma U_transform_ok:
  assumes "shape U = [2 * n, 2 * n, 2 * n, 2 * n]"
  shows "\<exists>U'. U_transform U = Inr (n, U')"
proof -
  have "prod_list [2, n, 2, n, 2, n, 2, n] = prod_list (shape U)"
    by (simp add: assms)
  then have r1: "reshape U [2, n, 2, n, 2, n, 2, n] = Inr (U\<lparr>shape := [2, n, 2, n, 2, n, 2, n]\<rparr>)"
    by (simp add: reshape_def)
  let ?U2 = "transpose_nd (U\<lparr>shape := [2, n, 2, n, 2, n, 2, n]\<rparr>) [1, 0, 3, 2, 5, 4, 7, 6]"
  have "map (\<lambda>p. shape (U\<lparr>shape := [2, n, 2, n, 2, n, 2, n]\<rparr>) ! p) [1, 0, 3, 2, 5, 4, 7, 6]
          = [n, 2, n, 2, n, 2, n, 2]"
    by simp
  then have r2: "reshape ?U2 [n * 2, n * 2, n * 2, n * 2]
                   = Inr (?U2\<lparr>shape := [n * 2, n * 2, n * 2, n * 2]\<rparr>)"
    unfolding reshape_def shape_transpose_nd by simp
  have d: "2 * n div 2 = n" by simp
  have "U_transform U = Inr (n, ?U2\<lparr>shape := [n * 2, n * 2, n * 2, n * 2]\<rparr>)"
    unfolding U_transform_def assms list.case Let_def d r1 sum.case r2 ..
  then show ?thesis by blast
qed

lemma t_transform_mismatch:
  assumes "shape t = d # ds" and "d div 2 \<noteq> norb"
  shows "t_transform norb t = Inl orbital_mismatch"
  using assms by (simp add: t_transform_def Let_def)

lemma t_transform_match:
  assumes "shape t = d # ds" and "d div 2 = norb"
  shows "t_transform norb t \<noteq> Inl orbital_mismatch"
  using assms
  by (auto simp: t_transform_def Let_def reshape_def orbital_mismatch_def split: sum.splits)

lemma translate_mismatch:
  assumes U: "shape (U_ijkl p) = u # us" and t: "shape (t_ij_matrix p) = t # ts"
    and ne: "u div 2 \<noteq> t div 2"
  shows "translate env p = Inl orbital_mismatch \<or>
         translate env p = Inl (ValueError ''cannot reshape array'')"
proof -
  from U_transform_cases [OF U] show ?thesis
  proof
    assume "U_transform (U_ijkl p) = Inl (ValueError ''cannot reshape array'')"
    then show ?thesis by (simp add: translate_def)
  next
    assume "\<exists>U'. U_transform (U_ijkl p) = Inr (u div 2, U')"
    then obtain U' where r: "U_transform (U_ijkl p) = Inr (u div 2, U')" by blast
    have "t_transform (u div 2) (t_ij_matrix p) = Inl orbital_mismatch"
      using t ne by (intro t_transform_mismatch) auto
    then show ?thesis by (simp add: translate_def r)
  qed
qed

lemma translate_mismatch_even:
  assumes U: "shape (U_ijkl p) = [2 * n, 2 * n, 2 * n, 2 * n]" and t: "shape (t_ij_matrix p) = t # ts"
    and ne: "n \<noteq> t div 2"
  shows "translate env p = Inl orbital_mismatch"
proof -
  from U_transform_ok [OF U] obtain U' where r: "U_transform (U_ijkl p) = Inr (n, U')" by blast
  have "t_transform n (t_ij_matrix p) = Inl orbital_mismatch"
    using t ne by (intro t_transform_mismatch) auto
  then show ?thesis by (simp add: translate_def r)
qed

lemma translate_match:
  assumes U: "shape (U_ijkl p) = u # us" and t: "shape (t_ij_matrix p) = t # ts"
    and eq: "u div 2 = t div 2"
  shows "translate env p \<noteq> Inl orbital_mismatch"
proof -
  from U_transform_cases [OF U] show ?thesis
  proof
    assume "U_transform (U_ijkl p) = Inl (ValueError ''cannot reshape array'')"
    then show ?thesis by (simp add: translate_def orbital_mismatch_def)
  next
    assume "\<exists>U'. U_transform (U_ijkl p) = Inr (u div 2, U')"
    then obtain U' where r: "U_transform (U_ijkl p) = Inr (u div 2, U')" by blast
    have "t_transform (u div 2) (t_ij_matrix p) \<noteq> Inl orbital_mismatch"
      using t eq by (intro t_transform_match) auto
    then show ?thesis by (auto simp: translate_def r split: sum.splits)
  qed
qed

lemma then_do_Inl [simp]: "then_do (Inl e, s) f = (Inl e, s)"
  by (simp add: then_do_def)

lemma then_do_Inr [simp]: "then_do (Inr x, s) f = f x s"
  by (simp add: then_do_def)

lemma prepare_translate_fails:
  "translate env p = Inl e \<Longrightarrow> prepare env self a p = (Inl e, init_state)"
  by (simp add: prepare_def)

lemma solve_translate_fails:
  "translate env p = Inl e \<Longrightarrow> solve env self a p = (Inl e, init_state)"
  by (simp add: solve_def prepare_translate_fails)

lemma configure_complex_worm:
  "complex_mode self \<Longrightarrow> worm a \<Longrightarrow>
   configure self a cfg0 D
     = (Inl SystemExit, [Print ''complex and worm together not yet implemented''])"
  by (simp add: configure_def Let_def)

lemma solve_complex_worm:
  assumes "complex_mode self" and "worm a" and "translate env p = Inr r"
  shows "solve env self a p
           = (Inl SystemExit,
              init_state\<lparr>trace := [Print ''complex and worm together not yet implemented'']\<rparr>)"
proof -
  obtain norb U t D where r: "r = (norb, U, t, D)" by (cases r) auto
  have "prepare env self a p
          = (Inl SystemExit,
             init_state\<lparr>trace := [Print ''complex and worm together not yet implemented'']\<rparr>)"
    unfolding prepare_def assms(3) r
    by (simp add: configure_complex_worm [OF assms(1,2)] Let_def)
  then show ?thesis by (simp add: solve_def)
qed

section \<open>What the sectors add to a call\<close>

lemma keeps_same:
  "trace (snd r) = trace s \<Longrightarrow> fst r \<noteq> Inl orbital_mismatch \<Longrightarrow> keeps s r"
  by (simp add: keeps_def)

lemma keeps_trans:
  assumes "keeps s (x, s1)" and "keeps s1 r"
  shows "keeps s r"
proof -
  from assms obtain es fs where
    "trace s1 = trace s @ es" "list_all quiet es" "trace (snd r) = trace s1 @ fs" "list_all quiet fs"
    and e: "fst r \<noteq> Inl orbital_mismatch"
    by (auto simp: keeps_def)
  then have "trace (snd r) = trace s @ (es @ fs) \<and> list_all quiet (es @ fs)" by simp
  with e show ?thesis unfolding keeps_def by blast
qed

lemma keeps_then_do:
  assumes "keeps s r" and "\<And>x s'. r = (Inr x, s') \<Longrightarrow> keeps s' (f x s')"
  shows "keeps s (then_do r f)"
proof (cases r)
  case (Pair o' s')
  show ?thesis
  proof (cases o')
    case (Inl e)
    with Pair assms(1) show ?thesis by (simp add: keeps_def)
  next
    case (Inr x)
    with Pair have "keeps s' (f x s')" by (intro assms(2)) simp
    moreover have "keeps s (Inr x, s')" using assms(1) Pair Inr by simp
    ultimately have "keeps s (f x s')" by (rule keeps_trans [rotated])
    with Pair Inr show ?thesis by simp
  qed
qed

lemma keeps_emit:
  assumes "quiet e" and "keeps (emit e s) r"
  shows "keeps s r"
proof -
  have "keeps s (Inr (), emit e s)" using assms(1) by (simp add: keeps_def emit_def)
  then show ?thesis using assms(2) by (rule keeps_trans)
qed

lemma keeps_stop [simp]:
  "trace s' = trace s \<Longrightarrow> keeps s (x, s') = (x \<noteq> Inl orbital_mismatch)"
  by (simp add: keeps_def)

lemma dict_get_not_mismatch [simp]: "dict_get d k \<noteq> Inl orbital_mismatch"
  by (simp add: dict_get_def orbital_mismatch_def split: option.splits)

lemma err_ne [simp]:
  "KeyError k \<noteq> orbital_mismatch" "ValueError m \<noteq> orbital_mismatch"
  "IndexError \<noteq> orbital_mismatch" "ZeroDivisionError \<noteq> orbital_mismatch"
  "NameError m \<noteq> orbital_mismatch" "NotImplementedError \<noteq> orbital_mismatch"
  "TypeError \<noteq> orbital_mismatch" "SystemExit \<noteq> orbital_mismatch"
  "EngineFailure m \<noteq> orbital_mismatch" "AssertionError [] \<noteq> orbital_mismatch"
  "AssertionError ''Complex does not make sense for diagonal Delta_tau!'' \<noteq> orbital_mismatch"
  by (simp_all add: orbital_mismatch_def)

lemma quiet_simps [simp]:
  "quiet (Print m)" "quiet (SetProblem x)" "quiet Solve" "quiet (SolveComponent i k c)"
  "quiet (SolveCompStats 0 k c)"
  by (simp_all add: quiet_def)

lemma keeps_qmc_is: "keeps s (qmc_is key n s)"
  by (auto simp: qmc_is_def split: sum.splits)

lemma keeps_require_qmc: "keeps s (require_qmc key s)"
  by (auto simp: require_qmc_def split: sum.splits)

lemma qmc_is_state: "qmc_is key n s = (r, s') \<Longrightarrow> s' = s"
  by (auto simp: qmc_is_def split: sum.splits)

lemma keeps_call: "trace s' = trace s \<Longrightarrow> keeps s' r \<Longrightarrow> keeps s r"
  by (simp add: keeps_def)

lemma keeps_after:
  "trace s' = trace s @ es \<Longrightarrow> list_all quiet es \<Longrightarrow> keeps s' r \<Longrightarrow> keeps s r"
  by (auto simp: keeps_def)

lemma keeps_fail:
  "trace s' = trace s @ es \<Longrightarrow> list_all quiet es \<Longrightarrow> e \<noteq> orbital_mismatch \<Longrightarrow>
   keeps s (Inl e, s')"
  by (auto simp: keeps_def)

lemma keeps_standard_run: "keeps s (standard_run env s)"
  by (auto simp: standard_run_def Let_def keeps_def emit_def split: sum.splits)

lemma component_bs_err [simp]: "component_bs env norb c \<noteq> Inl orbital_mismatch"
  by (auto simp: component_bs_def split: prod.splits)

lemma ftau_column_err [simp]: "ftau_column ftau c \<noteq> Inl orbital_mismatch"
  by (auto simp: ftau_column_def split: prod.splits list.splits)

lemma worm_components_err [simp]:
  "worm_components env norb ftau cs \<noteq> Inl orbital_mismatch"
proof (induction cs)
  case (Cons c cs)
  then show ?case
    using component_bs_err [of env norb c]
    by (auto split: sum.splits simp del: component_bs_err)
qed simp

lemma num_of_err [simp]: "num_of v \<noteq> Inl orbital_mismatch"
  by (cases v) (simp_all add: orbital_mismatch_def)

lemma int_of_quotient_err [simp]: "int_of_quotient x C \<noteq> Inl orbital_mismatch"
  by (auto simp: int_of_quotient_def to_float_def float_div_def py_int_def Let_def
        orbital_mismatch_def split: sum.splits if_splits)

lemma apportion_err [simp]: "apportion W C c \<noteq> Inl orbital_mismatch"
  by (auto simp: apportion_def split: sum.splits)

lemma assign_gtau_err [simp]: "assign_gtau g c v \<noteq> Inl orbital_mismatch"
  by (auto simp: assign_gtau_def broadcast_vec_def Let_def split: prod.splits sum.splits if_splits)

lemma bs_diagflat_err [simp]: "bs_diagflat g \<noteq> Inl orbital_mismatch"
  by (auto simp: bs_diagflat_def Let_def split: list.splits)

lemma keeps_two_operator_loop: "keeps s (two_operator_loop env norb cs s)"
proof (induction cs arbitrary: s)
  case Nil
  show ?case by simp
next
  case (Cons c cs)
  let ?s1 = "emit (SetProblem None) s"
  show ?case
  proof (cases "engine_solve_component env (trace ?s1) (cfg ?s1) 1 2 c")
    case (Inl m)
    then show ?thesis by (simp add: Let_def keeps_def emit_def)
  next
    case (Inr res)
    let ?S = "emit (SolveComponent 1 2 c) ?s1"
    have t2: "trace ?S = trace s @ [SetProblem None, SolveComponent 1 2 c]"
      by (simp add: emit_def)
    have rec: "keeps ?S (two_operator_loop env norb cs s')" if "trace s' = trace ?S" for s'
      using that Cons.IH [of s'] by (rule keeps_call)
    have "keeps ?S (two_operator_loop env norb (c # cs) s)"
      using Inr
      by (auto simp: Let_def rec split: sum.splits option.splits)
    then show ?thesis
      by (rule keeps_after [OF t2, rotated]) simp
  qed
qed

lemma keeps_two_operator: "keeps s (two_operator env self a norb ftau s)"
proof -
  have rec: "keeps s (two_operator_loop env norb cs s')" if "trace s' = trace s" for s' cs
    using that keeps_two_operator_loop [of s'] by (rule keeps_call)
  show ?thesis
    by (auto simp: two_operator_def Let_def rec split: sum.splits)
qed

lemma keeps_configured_components: "keeps s (configured_components env norb s)"
  by (auto simp: configured_components_def split: sum.splits cfgval.splits)

lemma configured_components_state:
  "configured_components env norb s = (r, s') \<Longrightarrow> s' = s"
  by (auto simp: configured_components_def split: sum.splits cfgval.splits)

lemma keeps_comp_stats_loop: "keeps s (comp_stats_loop env four key ws cs s)"
proof (induction cs arbitrary: s four)
  case Nil
  show ?case by simp
next
  case (Cons c cs)
  show ?case
  proof (cases "if four then dict_get (QMC (cfg s)) ''FourPnt'' else Inr (IntV 0)")
    case (Inl e)
    then have "e \<noteq> orbital_mismatch" by (auto split: if_splits)
    with Inl show ?thesis by simp
  next
    case fp: (Inr fp)
    let ?s1 = "emit (SetProblem (if four then Some fp else None)) s"
    show ?thesis
    proof (cases "engine_solve_comp_stats env (trace ?s1) (cfg ?s1) 0 ws c")
      case (Inl m)
      with fp show ?thesis by (simp add: Let_def keeps_def emit_def)
    next
      case (Inr res)
      let ?S = "emit (SolveCompStats 0 ws c) ?s1"
      have t2: "trace ?S = trace s @ [SetProblem (if four then Some fp else None), SolveCompStats 0 ws c]"
        by (simp add: emit_def)
      have rec: "keeps S (comp_stats_loop env f key ws cs s')" if "trace s' = trace S" for s' S f
        using that Cons.IH [of s' f] by (rule keeps_call)
      have "keeps ?S (comp_stats_loop env four key ws (c # cs) s)"
        using Inr fp
        by (auto simp: Let_def rec split: sum.splits)
      then show ?thesis
        by (rule keeps_after [OF t2, rotated]) simp
    qed
  qed
qed

lemma keeps_warn: "keeps s (Inr (), warn_wormcomponents a s)"
  by (simp add: warn_wormcomponents_def keeps_def emit_def)

lemma require_qmc_state: "require_qmc key s = (r, s') \<Longrightarrow> s' = s"
  by (auto simp: require_qmc_def split: sum.splits)

lemma keeps_four_operator: "keeps s (four_operator env self a norb s)"
proof -
  let ?w = "warn_wormcomponents a s"
  have loop: "keeps s1 (comp_stats_loop env True key ws cs s2)" if "trace s2 = trace s1" for s1 s2 key ws cs
    using that keeps_comp_stats_loop [of s2] by (rule keeps_call)
  have cc: "keeps s1 (configured_components env norb s2)" if "trace s2 = trace s1" for s1 s2
    using that keeps_configured_components [of s2] by (rule keeps_call)
  have "keeps ?w (four_operator env self a norb s)"
    unfolding four_operator_def
    apply (rule keeps_then_do [OF keeps_require_qmc])
    apply (rule keeps_then_do [OF keeps_require_qmc])
    apply (simp add: Let_def)
    apply (rule keeps_then_do)
     apply (rule cc, simp)
    apply (rule loop)
    apply (auto dest: configured_components_state)
    done
  with keeps_warn [of s a] show ?thesis by (rule keeps_trans)
qed

lemma keeps_reduced_key: "keeps s (reduced_key s)"
  unfolding reduced_key_def
  by (auto intro!: keeps_then_do keeps_qmc_is keeps_require_qmc)

lemma keeps_reduced_sector: "keeps s (reduced_sector env self a norb s)"
proof -
  let ?w = "warn_wormcomponents a s"
  have loop: "keeps s1 (comp_stats_loop env False key ws cs s2)" if "trace s2 = trace s1" for s1 s2 key ws cs
    using that keeps_comp_stats_loop [of s2] by (rule keeps_call)
  have cc: "keeps s1 (configured_components env norb s2)" if "trace s2 = trace s1" for s1 s2
    using that keeps_configured_components [of s2] by (rule keeps_call)
  have "keeps ?w (reduced_sector env self a norb s)"
    unfolding reduced_sector_def
    apply (rule keeps_then_do [OF keeps_reduced_key])
    apply (simp add: Let_def)
    apply (rule keeps_then_do)
     apply (rule cc, simp)
    apply (rule loop)
    apply (auto dest: configured_components_state)
    done
  with keeps_warn [of s a] show ?thesis by (rule keeps_trans)
qed

lemma keeps_any_reduced: "keeps s (any_reduced s)"
  unfolding any_reduced_def
  by (auto intro!: keeps_then_do keeps_qmc_is)

lemma keeps_any_two_particle: "keeps s (any_two_particle s)"
  unfolding any_two_particle_def
  by (auto intro!: keeps_then_do keeps_qmc_is keeps_any_reduced)

lemma keeps_dispatch: "keeps s (dispatch env self a norb ftau s)"
  unfolding dispatch_def
  by (auto intro!: keeps_then_do keeps_qmc_is keeps_any_reduced keeps_standard_run
        keeps_two_operator keeps_four_operator keeps_reduced_sector)

lemma keeps_read_result: "keeps s (read_result key s)"
  by (auto simp: read_result_def split: option.splits sum.splits)

lemma read_result_state: "read_result key s = (r, s') \<Longrightarrow> s' = s"
  by (auto simp: read_result_def split: option.splits sum.splits)

lemma keeps_tau_conversion: "keeps s (tau_conversion a s)"
  unfolding tau_conversion_def
  by (auto intro!: keeps_then_do keeps_qmc_is keeps_read_result
        split: sum.splits option.splits dest!: read_result_state)

lemma keeps_convert: "keeps s (convert a s)"
  unfolding convert_def
  by (auto intro!: keeps_then_do keeps_tau_conversion keeps_read_result keeps_any_two_particle
        split: sum.splits option.splits dest!: read_result_state)

lemma g4iw_loop_err: "fst (g4iw_loop env cs g s) \<noteq> Inl orbital_mismatch"
proof (induction cs arbitrary: g s)
  case (Cons c cs)
  show ?case
    using Cons.IH
    by (auto simp: Let_def split: sum.splits)
qed simp

lemma then_do_err:
  assumes "fst r \<noteq> Inl e" and "\<And>x s. fst (f x s) \<noteq> Inl e"
  shows "fst (then_do r f) \<noteq> Inl e"
  using assms by (cases r) (auto simp: then_do_def split: sum.splits)

lemma auto_g4iw_err: "fst (auto_g4iw env a norb s) \<noteq> Inl orbital_mismatch"
  unfolding auto_g4iw_def Let_def
  by (rule then_do_err [OF g4iw_loop_err]) simp

lemma configure_err: "fst (configure self a cfg0 D) \<noteq> Inl orbital_mismatch"
  by (auto simp: configure_def Let_def split: sum.splits)

lemma keeps_fst: "keeps s r \<Longrightarrow> fst r \<noteq> Inl orbital_mismatch"
  by (simp add: keeps_def)

lemma after_prepare_err:
  "fst (then_do (if measure_G_tau a \<or> measure_G_l a \<or> measure_pert_order a
                 then dispatch env self a norb ftau s else (Inr (), s))
          (\<lambda>_ s. if measure_g4iw_ph a \<and> length (manual_cfg_qmc a) = 0
                  then auto_g4iw env a norb s else convert a s))
     \<noteq> Inl orbital_mismatch"
proof (rule then_do_err)
  show "fst (if measure_G_tau a \<or> measure_G_l a \<or> measure_pert_order a
             then dispatch env self a norb ftau s else (Inr (), s)) \<noteq> Inl orbital_mismatch"
    using keeps_fst [OF keeps_dispatch [of s env self a norb ftau]] by simp
next
  fix x :: unit and s'
  show "fst (if measure_g4iw_ph a \<and> length (manual_cfg_qmc a) = 0
             then auto_g4iw env a norb s' else convert a s') \<noteq> Inl orbital_mismatch"
    using keeps_fst [OF keeps_convert [of s' a]] auto_g4iw_err [of env a norb s'] by simp
qed

lemma solve_err:
  assumes "translate env p \<noteq> Inl orbital_mismatch"
  shows "fst (solve env self a p) \<noteq> Inl orbital_mismatch"
proof (cases "translate env p")
  case (Inl e)
  with assms show ?thesis by (simp add: solve_translate_fails)
next
  case (Inr r)
  obtain norb U t D where r: "r = (norb, U, t, D)" by (cases r) auto
  let ?c = "configure self a (get_cfg env norb) D"
  show ?thesis
  proof (cases ?c)
    case (Pair o' out)
    show ?thesis
    proof (cases o')
      case (Inl e)
      with configure_err [of self a "get_cfg env norb" D] Pair have "e \<noteq> orbital_mismatch" by auto
      with Inl Pair Inr r show ?thesis by (simp add: solve_def prepare_def Let_def)
    next
      case c: (Inr c)
      show ?thesis
        unfolding solve_def prepare_def Inr r
        using after_prepare_err [of a env self norb]
        by (simp add: Pair c Let_def)
    qed
  qed
qed

lemma quiet_events:
  "list_all quiet es \<Longrightarrow>
   filter engine_object es = [] \<and> list_all (\<lambda>e. \<not> automatic_g4iw_call e) es"
  by (induction es) (auto simp: quiet_def)

lemma after_prepare_trace:
  assumes "\<not> (measure_g4iw_ph a \<and> length (manual_cfg_qmc a) = 0)"
  shows "keeps s (then_do (if measure_G_tau a \<or> measure_G_l a \<or> measure_pert_order a
                 then dispatch env self a norb ftau s else (Inr (), s))
          (\<lambda>_ s. if measure_g4iw_ph a \<and> length (manual_cfg_qmc a) = 0
                  then auto_g4iw env a norb s else convert a s))"
  using assms
  by (auto intro!: keeps_then_do keeps_dispatch keeps_convert)

lemma solve_trace_no_auto:
  assumes "\<not> (measure_g4iw_ph a \<and> length (manual_cfg_qmc a) = 0)"
  shows "length (filter engine_object (trace (snd (solve env self a p)))) \<le> 1 \<and>
         list_all (\<lambda>e. \<not> automatic_g4iw_call e) (trace (snd (solve env self a p)))"
proof (cases "prepare env self a p")
  case (Pair o' s0)
  have p0: "length (filter engine_object (trace s0)) \<le> 1 \<and>
            list_all (\<lambda>e. \<not> automatic_g4iw_call e) (trace s0)"
    using Pair
    by (auto simp: prepare_def configure_def init_state_def Let_def
             split: sum.splits prod.splits if_splits)
  show ?thesis
  proof (cases o')
    case (Inl e)
    with Pair p0 show ?thesis by (simp add: solve_def)
  next
    case (Inr x)
    obtain norb ftau where x: "x = (norb, ftau)" by (cases x)
    from after_prepare_trace [OF assms, of s0 env self norb ftau]
    obtain es where "trace (snd (solve env self a p)) = trace s0 @ es" "list_all quiet es"
      by (auto simp: solve_def Pair Inr x keeps_def)
    with quiet_events [of es] p0 show ?thesis by simp
  qed
qed

lemma a_upd [simp]:
  "base_cfg self (a\<lparr>measure_g4iw_ph := b\<rparr>) = base_cfg self a"
  "worm_cfg (a\<lparr>measure_g4iw_ph := b\<rparr>) = worm_cfg a"
  "manual_cfg_qmc (a\<lparr>measure_g4iw_ph := b\<rparr>) = manual_cfg_qmc a"
  "warn_wormcomponents (a\<lparr>measure_g4iw_ph := b\<rparr>) = warn_wormcomponents a"
  "tau_conversion (a\<lparr>measure_g4iw_ph := b\<rparr>) = tau_conversion a"
  by (simp_all add: base_cfg_def worm_cfg_def manual_cfg_qmc_def warn_wormcomponents_def
        tau_conversion_def fun_eq_iff Let_def cong: if_cong sum.case_cong option.case_cong)

lemma a_upd2 [simp]:
  "manual_cfg (a\<lparr>measure_g4iw_ph := b\<rparr>) = manual_cfg a"
  "two_operator env self (a\<lparr>measure_g4iw_ph := b\<rparr>) = two_operator env self a"
  "four_operator env self (a\<lparr>measure_g4iw_ph := b\<rparr>) = four_operator env self a"
  "reduced_sector env self (a\<lparr>measure_g4iw_ph := b\<rparr>) = reduced_sector env self a"
  "convert (a\<lparr>measure_g4iw_ph := b\<rparr>) = convert a"
  by (simp_all add: manual_cfg_def two_operator_def four_operator_def reduced_sector_def
        convert_def fun_eq_iff Let_def cong: if_cong sum.case_cong option.case_cong)

lemma a_upd3 [simp]:
  "finish_cfg self (a\<lparr>measure_g4iw_ph := b\<rparr>) = finish_cfg self a"
  "dispatch env self (a\<lparr>measure_g4iw_ph := b\<rparr>) = dispatch env self a"
  by (simp_all add: finish_cfg_def dispatch_def fun_eq_iff Let_def cong: if_cong sum.case_cong)

lemma a_upd4 [simp]:
  "configure self (a\<lparr>measure_g4iw_ph := b\<rparr>) = configure self a"
  by (simp add: configure_def fun_eq_iff Let_def cong: if_cong sum.case_cong)

lemma a_upd5 [simp]:
  "prepare env self (a\<lparr>measure_g4iw_ph := b\<rparr>) = prepare env self a"
  by (simp add: prepare_def fun_eq_iff Let_def cong: if_cong sum.case_cong prod.case_cong)

lemma solve_flag_ignored:
  assumes "length (manual_cfg_qmc a) \<noteq> 0"
  shows "solve env self (a\<lparr>measure_g4iw_ph := b\<rparr>) p = solve env self a p"
  using assms by (simp add: solve_def cong: if_cong)

section \<open>Properties of a call\<close>

lemma t_transform_ok:
  assumes "shape t = [2 * n, 2 * n]"
  shows "\<exists>t'. t_transform n t = Inr t'"
  using assms by (simp add: t_transform_def Let_def reshape_def nd_neg_def)

lemma translate_ok:
  assumes "shape (U_ijkl p) = [2 * n, 2 * n, 2 * n, 2 * n]" and "shape (t_ij_matrix p) = [2 * n, 2 * n]"
  shows "\<exists>U t. translate env p = Inr (n, U, t, hole_propagator (Delta_tau p))"
proof -
  from U_transform_ok [OF assms(1)] obtain U' where u: "U_transform (U_ijkl p) = Inr (n, U')" by blast
  from t_transform_ok [OF assms(2)] obtain t' where t: "t_transform n (t_ij_matrix p) = Inr t'" by blast
  show ?thesis by (simp add: translate_def u t Let_def)
qed

lemma example_translate:
  "\<exists>U t. translate env example_problem = Inr (1, U, t, hole_propagator (Delta_tau example_problem))"
  by (rule translate_ok) (simp_all add: example_problem_def)


lemma manual_fold_other:
  "k \<notin> fst ` set m \<Longrightarrow>
   dict_get (QMC (fold (\<lambda>(key, v) cfg. set_QMC key v cfg) m c)) k = dict_get (QMC c) k"
  by (induction m arbitrary: c) (auto simp: dict_get_set_QMC)

lemma manual_cfg_other:
  "k \<notin> fst ` set (manual_cfg_qmc a) \<Longrightarrow> dict_get (QMC (manual_cfg a c)) k = dict_get (QMC c) k"
  by (simp add: manual_cfg_def manual_fold_other)

lemma worm_cfg_probabilities:
  assumes "worm a"
  shows "dict_get (QMC (worm_cfg a c)) ''PercentageWormInsert''
           = Inr (FloatV (if percentageworminsert a = 0 then 0.2 else percentageworminsert a))"
    and "dict_get (QMC (worm_cfg a c)) ''PercentageWormReplace''
           = Inr (FloatV (if percentagewormreplace a = 0 then 0.2 else percentagewormreplace a))"
  using assms by (simp_all add: worm_cfg_def Let_def dict_get_set_QMC)

lemma prepare_Inr:
  assumes "prepare env self a p = (Inr x, s)" and "worm a"
  shows "\<exists>c0 n. cfg s = finish_cfg self a c0 \<and>
           trace s = [CtHybSolver (cfg s) n, Print (CHR 0x0A # replicate 40 (CHR ''.'')), SetProblem None]"
  using assms
  by (auto simp: prepare_def configure_def init_state_def Let_def
           split: sum.splits prod.splits if_splits)


lemma example_prepare:
  "\<exists>x s. prepare (example_env f) example_solver a example_problem = (Inr x, s)"
proof -
  from example_translate [of "example_env f"] obtain U t where
    "translate (example_env f) example_problem = Inr (1, U, t, hole_propagator (Delta_tau example_problem))"
    by blast
  then show ?thesis
    by (simp add: prepare_def configure_def example_solver_def Let_def)
qed


text \<open>
  Claim C1. Lines 143 and 152 build the interaction tensor and the hopping matrix from
  the same \<^verbatim>\<open>gf_struct\<close>, for n orbitals with shapes (2n, 2n, 2n, 2n) and (2n, 2n).
  When the solver is complex and the call asks for worm mode, the call prints the
  message of line 219 and stops with the SystemExit of \<^verbatim>\<open>exit()\<close> (line 220). Nothing
  else has happened by then: the message is the whole trace of the call, so no engine
  object was built and the engine was not invoked.
\<close>

theorem complex_worm_stops_before_engine:
  assumes "complex_mode self" and "worm a"
    and "shape (U_ijkl p) = [2 * n, 2 * n, 2 * n, 2 * n]"
    and "shape (t_ij_matrix p) = [2 * n, 2 * n]"
  shows "solve env self a p
           = (Inl SystemExit,
              init_state\<lparr>trace := [Print ''complex and worm together not yet implemented'']\<rparr>) \<and>
         filter engine_event (trace (snd (solve env self a p))) = []"
proof -
  from translate_ok [OF assms(3,4)] obtain U t where
    "translate env p = Inr (n, U, t, hole_propagator (Delta_tau p))" by blast
  from solve_complex_worm [OF assms(1,2) this] show ?thesis by simp
qed


text \<open>The theorem at the one-orbital example.\<close>

theorem complex_worm_stops_before_engine_witness:
  "solve (example_env (nd_zeros [2, 1, 2, 1, 2])) (example_solver\<lparr>complex_mode := True\<rparr>)
     ((default_args 1000)\<lparr>worm := True\<rparr>) example_problem
     = (Inl SystemExit,
        init_state\<lparr>trace := [Print ''complex and worm together not yet implemented'']\<rparr>) \<and>
   filter engine_event (trace (snd (solve (example_env (nd_zeros [2, 1, 2, 1, 2]))
     (example_solver\<lparr>complex_mode := True\<rparr>) ((default_args 1000)\<lparr>worm := True\<rparr>)
     example_problem))) = []"
proof -
  have c: "complex_mode (example_solver\<lparr>complex_mode := True\<rparr>)" by simp
  have w: "worm ((default_args 1000)\<lparr>worm := True\<rparr>)" by simp
  have u: "shape (U_ijkl example_problem) = [2 * 1, 2 * 1, 2 * 1, 2 * 1]"
    by (simp add: example_problem_def)
  have t: "shape (t_ij_matrix example_problem) = [2 * 1, 2 * 1]"
    by (simp add: example_problem_def)
  from complex_worm_stops_before_engine [OF c w u t, of "example_env (nd_zeros [2, 1, 2, 1, 2])"]
  show ?thesis .
qed


text \<open>
  Claim C4. Let u be the flavour dimension of the interaction tensor and t the row
  dimension of the hopping matrix. When u div 2 and t div 2 differ, the call fails
  before anything is printed or handed to the engine: with the AssertionError of line
  173, or, when the rank-8 reshape of line 147 rejects the tensor first, with numpy's
  ValueError; for a tensor of shape (u, u, u, u) with u even it is the AssertionError.
  When the two counts agree, no call fails with that AssertionError.
\<close>

theorem orbital_count_check:
  assumes "shape (U_ijkl p) = u # us" and "shape (t_ij_matrix p) = t # ts"
  shows "(u div 2 \<noteq> t div 2 \<longrightarrow>
            trace (snd (solve env self a p)) = [] \<and>
            (fst (solve env self a p) = Inl orbital_mismatch \<or>
             fst (solve env self a p) = Inl (ValueError ''cannot reshape array''))) \<and>
         (u div 2 \<noteq> t div 2 \<and> even u \<and> us = [u, u, u] \<longrightarrow>
            fst (solve env self a p) = Inl orbital_mismatch) \<and>
         (u div 2 = t div 2 \<longrightarrow> fst (solve env self a p) \<noteq> Inl orbital_mismatch)"
proof -
  have a1: "trace (snd (solve env self a p)) = [] \<and>
            (fst (solve env self a p) = Inl orbital_mismatch \<or>
             fst (solve env self a p) = Inl (ValueError ''cannot reshape array''))"
    if ne: "u div 2 \<noteq> t div 2"
    using translate_mismatch [OF assms ne, of env]
    by (auto simp: solve_translate_fails init_state_def)
  have a2: "fst (solve env self a p) = Inl orbital_mismatch"
    if h: "u div 2 \<noteq> t div 2 \<and> even u \<and> us = [u, u, u]"
  proof -
    from h obtain n where n: "u = 2 * n" by (auto elim: evenE)
    have "translate env p = Inl orbital_mismatch"
      by (rule translate_mismatch_even [of _ n t ts]) (use h n assms in auto)
    then show ?thesis by (simp add: solve_translate_fails)
  qed
  have a3: "fst (solve env self a p) \<noteq> Inl orbital_mismatch" if eq: "u div 2 = t div 2"
    by (rule solve_err [OF translate_match [OF assms eq]])
  from a1 a2 a3 show ?thesis by blast
qed


text \<open>The theorem at two orbitals against three, and at the one-orbital example.\<close>

theorem orbital_count_check_witness:
  "trace (snd (solve (example_env (nd_zeros [2, 2, 2, 2, 2])) example_solver (default_args 1000)
                \<lparr>U_ijkl = \<lparr>shape = [4, 4, 4, 4], data = replicate 256 0\<rparr>,
                 t_ij_matrix = \<lparr>shape = [6, 6], data = replicate 36 0\<rparr>,
                 Delta_tau = []\<rparr>)) = [] \<and>
   fst (solve (example_env (nd_zeros [2, 2, 2, 2, 2])) example_solver (default_args 1000)
          \<lparr>U_ijkl = \<lparr>shape = [4, 4, 4, 4], data = replicate 256 0\<rparr>,
           t_ij_matrix = \<lparr>shape = [6, 6], data = replicate 36 0\<rparr>,
           Delta_tau = []\<rparr>) = Inl orbital_mismatch \<and>
   fst (solve (example_env (nd_zeros [2, 1, 2, 1, 2])) example_solver (default_args 1000)
          example_problem) \<noteq> Inl orbital_mismatch"
  using orbital_count_check
          [of "\<lparr>U_ijkl = \<lparr>shape = [4, 4, 4, 4], data = replicate 256 0\<rparr>,
                t_ij_matrix = \<lparr>shape = [6, 6], data = replicate 36 0\<rparr>,
                Delta_tau = []\<rparr>" 4 "[4, 4, 4]" 6 "[6]"
              "example_env (nd_zeros [2, 2, 2, 2, 2])" example_solver "default_args 1000"]
        orbital_count_check
          [of example_problem 2 "[2, 2, 2]" 2 "[2]"
              "example_env (nd_zeros [2, 1, 2, 1, 2])" example_solver "default_args 1000"]
  by (simp add: example_problem_def)


text \<open>
  Claim C9. When \<^verbatim>\<open>measure_G2_iw_ph\<close> is requested together with a non-empty
  \<^verbatim>\<open>cfg_qmc\<close>, the call is the call without the request: lines 611-663 are skipped,
  at most one engine object is built (the automatic pipeline would build a second),
  and \<^verbatim>\<open>solve_comp_stats(1, 4, ...)\<close>, the automatic pipeline's invocation, never
  happens.
\<close>

theorem manual_cfg_bypasses_automatic_g4iw:
  assumes "measure_g4iw_ph a" and "cfg_qmc a = Some m" and "m \<noteq> []"
  shows "solve env self a p = solve env self (a\<lparr>measure_g4iw_ph := False\<rparr>) p \<and>
         length (filter engine_object (trace (snd (solve env self a p)))) \<le> 1 \<and>
         list_all (\<lambda>e. \<not> automatic_g4iw_call e) (trace (snd (solve env self a p)))"
proof -
  have m: "length (manual_cfg_qmc a) \<noteq> 0"
    using assms by (simp add: manual_cfg_qmc_def)
  then have "\<not> (measure_g4iw_ph a \<and> length (manual_cfg_qmc a) = 0)" by simp
  from solve_trace_no_auto [OF this] solve_flag_ignored [OF m] show ?thesis by simp
qed


text \<open>
  The theorem at a manual four-operator configuration that completes: the sector of
  lines 441-510 runs once, on component 1, line 611 is reached with the flag set, and
  the call returns without a second engine object.
\<close>

theorem manual_cfg_bypasses_automatic_g4iw_witness:
  "solve (example_env (nd_zeros [2, 1, 2, 1, 2])) example_solver
     ((default_args 1000)\<lparr>worm := True, measure_g4iw_ph := True,
        cfg_qmc := Some [(''FourPnt'', IntV 8), (''WormComponents'', CompsV [CompIndex 1]),
                         (''N4iwf'', IntV 2), (''N4iwb'', IntV 1)]\<rparr>)
     example_problem
   = solve (example_env (nd_zeros [2, 1, 2, 1, 2])) example_solver
     ((default_args 1000)\<lparr>worm := True, measure_g4iw_ph := True,
        cfg_qmc := Some [(''FourPnt'', IntV 8), (''WormComponents'', CompsV [CompIndex 1]),
                         (''N4iwf'', IntV 2), (''N4iwb'', IntV 1)],
        measure_g4iw_ph := False\<rparr>)
     example_problem \<and>
   fst (solve (example_env (nd_zeros [2, 1, 2, 1, 2])) example_solver
     ((default_args 1000)\<lparr>worm := True, measure_g4iw_ph := True,
        cfg_qmc := Some [(''FourPnt'', IntV 8), (''WormComponents'', CompsV [CompIndex 1]),
                         (''N4iwf'', IntV 2), (''N4iwb'', IntV 1)]\<rparr>)
     example_problem) = Inr RetNone \<and>
   length (filter engine_object (trace (snd (solve (example_env (nd_zeros [2, 1, 2, 1, 2])) example_solver
     ((default_args 1000)\<lparr>worm := True, measure_g4iw_ph := True,
        cfg_qmc := Some [(''FourPnt'', IntV 8), (''WormComponents'', CompsV [CompIndex 1]),
                         (''N4iwf'', IntV 2), (''N4iwb'', IntV 1)]\<rparr>)
     example_problem)))) = 1 \<and>
   drop 1 (trace (snd (solve (example_env (nd_zeros [2, 1, 2, 1, 2])) example_solver
     ((default_args 1000)\<lparr>worm := True, measure_g4iw_ph := True,
        cfg_qmc := Some [(''FourPnt'', IntV 8), (''WormComponents'', CompsV [CompIndex 1]),
                         (''N4iwf'', IntV 2), (''N4iwb'', IntV 1)]\<rparr>)
     example_problem)))
     = [Print (CHR 0x0A # replicate 40 (CHR ''.'')), SetProblem None,
        SetProblem (Some (IntV 8)), SolveCompStats 0 0 1] \<and>
   filter automatic_g4iw_call (trace (snd (solve (example_env (nd_zeros [2, 1, 2, 1, 2])) example_solver
     ((default_args 1000)\<lparr>worm := True, measure_g4iw_ph := True,
        cfg_qmc := Some [(''FourPnt'', IntV 8), (''WormComponents'', CompsV [CompIndex 1]),
                         (''N4iwf'', IntV 2), (''N4iwb'', IntV 1)]\<rparr>)
     example_problem))) = []"
proof -
  let ?m = "[(''FourPnt'', IntV 8), (''WormComponents'', CompsV [CompIndex 1]),
             (''N4iwf'', IntV 2), (''N4iwb'', IntV 1)]"
  let ?a = "(default_args 1000)\<lparr>worm := True, measure_g4iw_ph := True, cfg_qmc := Some ?m\<rparr>"
  let ?r = "solve (example_env (nd_zeros [2, 1, 2, 1, 2])) example_solver ?a example_problem"
  have h1: "measure_g4iw_ph ?a" by simp
  have h2: "cfg_qmc ?a = Some ?m" by simp
  have h3: "?m \<noteq> []" by simp
  have r: "fst ?r = Inr RetNone" by code_simp
  have d: "drop 1 (trace (snd ?r))
             = [Print (CHR 0x0A # replicate 40 (CHR ''.'')), SetProblem None,
                SetProblem (Some (IntV 8)), SolveCompStats 0 0 1]"
    by code_simp
  have n: "0 < length (filter engine_object (trace (snd ?r)))" by code_simp
  from manual_cfg_bypasses_automatic_g4iw [OF h1 h2 h3, of "example_env (nd_zeros [2, 1, 2, 1, 2])"
         example_solver example_problem]
  have e: "?r = solve (example_env (nd_zeros [2, 1, 2, 1, 2])) example_solver
                  (?a\<lparr>measure_g4iw_ph := False\<rparr>) example_problem"
    and l: "length (filter engine_object (trace (snd ?r))) \<le> 1"
    and f: "list_all (\<lambda>e. \<not> automatic_g4iw_call e) (trace (snd ?r))"
    by blast+
  from l n have l1: "length (filter engine_object (trace (snd ?r))) = 1" by linarith
  from f have f0: "filter automatic_g4iw_call (trace (snd ?r)) = []"
    by (simp add: filter_empty_conv list_all_iff)
  from e r l1 d f0 show ?thesis by (intro conjI)
qed


text \<open>
  Claim C5 fails on the code. Worm mode, the two-operator sector, and a hybridization
  that is zero everywhere: every component is pruned, and line 407 divides by
  \<^verbatim>\<open>float(0)\<close>.
\<close>

theorem zero_components_division_by_zero:
  "fst (solve (example_env (nd_zeros [2, 1, 2, 1, 2])) example_solver
              ((default_args 1000)\<lparr>worm := True\<rparr>) example_problem) = Inl ZeroDivisionError"
  by code_simp

text \<open>
  Lines 279-286: in worm mode, unless \<^verbatim>\<open>cfg_qmc\<close> sets the options itself, the
  configuration with which the first engine object is built (line 314) has
  \<^verbatim>\<open>PercentageWormInsert\<close> and \<^verbatim>\<open>PercentageWormReplace\<close> at 0.2 when the caller's
  value is exactly 0.0, and at the caller's value otherwise.
\<close>

lemma first_engine_worm_probabilities:
  assumes "worm a" and "prepare env self a p = (Inr x, s)"
    and "''PercentageWormInsert'' \<notin> fst ` set (manual_cfg_qmc a)"
    and "''PercentageWormReplace'' \<notin> fst ` set (manual_cfg_qmc a)"
  shows "configs_of (trace s) = [cfg s] \<and>
         dict_get (QMC (cfg s)) ''PercentageWormInsert''
           = Inr (FloatV (if percentageworminsert a = 0 then 0.2 else percentageworminsert a)) \<and>
         dict_get (QMC (cfg s)) ''PercentageWormReplace''
           = Inr (FloatV (if percentagewormreplace a = 0 then 0.2 else percentagewormreplace a))"
proof -
  from prepare_Inr [OF assms(2,1)] obtain c0 n where
    c: "cfg s = finish_cfg self a c0"
    and t: "trace s = [CtHybSolver (cfg s) n, Print (CHR 0x0A # replicate 40 (CHR ''.'')), SetProblem None]"
    by blast
  have "configs_of (trace s) = [cfg s]" unfolding t by simp
  moreover have "dict_get (QMC (cfg s)) ''PercentageWormInsert''
           = Inr (FloatV (if percentageworminsert a = 0 then 0.2 else percentageworminsert a))"
    unfolding c finish_cfg_def manual_cfg_other [OF assms(3)]
    by (rule worm_cfg_probabilities [OF assms(1)])
  moreover have "dict_get (QMC (cfg s)) ''PercentageWormReplace''
           = Inr (FloatV (if percentagewormreplace a = 0 then 0.2 else percentagewormreplace a))"
    unfolding c finish_cfg_def manual_cfg_other [OF assms(4)]
    by (rule worm_cfg_probabilities [OF assms(1)])
  ultimately show ?thesis by simp
qed


text \<open>
  Claim C10 fails on the code. Worm mode, an insert probability of 0.0,
  \<^verbatim>\<open>measure_G2_iw_ph\<close> and no \<^verbatim>\<open>cfg_qmc\<close>: the first engine object is built with the
  0.2 of lines 279-280, but lines 618-619 write the caller's values over it, and the
  engine object of line 622 is built with an insert probability of 0.0.
\<close>

theorem automatic_g4iw_overwrites_worm_probability:
  "map (\<lambda>c. dict_get (QMC c) ''PercentageWormInsert'')
     (configs_of (trace (snd (solve
        (example_env example_ftau_diagonal) example_solver
        ((default_args 1000)\<lparr>worm := True, percentageworminsert := 0, measure_g4iw_ph := True,
           wormcomponents := Some [1]\<rparr>) example_problem))))
   = [Inr (FloatV 0.2), Inr (FloatV 0)]"
  by code_simp

section \<open>The two-operator worm sector\<close>

lemma all_zeros_iff: "all_zeros col = (\<forall>x \<in> set col. \<bar>x\<bar> \<le> 1 / 100000)"
  by (auto simp: all_zeros_def list_ex_iff not_less)

lemma ftau_column_Inr:
  assumes "ftau_column ftau (b1, s1, b2, s2) = Inr col"
  shows "col = map (\<lambda>t. nd_get ftau [t, b1, s1, b2, s2]) [0..<hd (shape ftau)]"
  using assms by (auto simp: ftau_column_def split: list.splits if_splits)

lemma worm_components_filter:
  assumes "worm_components env norb ftau cs0 = Inr cs"
  shows "cs = filter (retained env norb ftau) cs0 \<and>
         (\<forall>c \<in> set cs0. \<exists>bs col. component_bs env norb c = Inr bs \<and> ftau_column ftau bs = Inr col)"
  using assms
proof (induction cs0 arbitrary: cs)
  case Nil
  then show ?case by simp
next
  case (Cons c cs0)
  from Cons.prems obtain bs col rest where
    b: "component_bs env norb c = Inr bs" and f: "ftau_column ftau bs = Inr col"
    and r: "worm_components env norb ftau cs0 = Inr rest"
    and cs: "cs = (if all_zeros col then rest else c # rest)"
    by (auto split: sum.splits)
  have rc: "retained env norb ftau c = (\<not> all_zeros col)"
    by (simp add: retained_def b f)
  from Cons.IH [OF r] have ih1: "rest = filter (retained env norb ftau) cs0"
    and ih2: "\<forall>c \<in> set cs0. \<exists>bs col. component_bs env norb c = Inr bs \<and> ftau_column ftau bs = Inr col"
    by blast+
  have "cs = filter (retained env norb ftau) (c # cs0)"
    using cs ih1 rc by simp
  moreover have "\<forall>c' \<in> set (c # cs0). \<exists>bs col. component_bs env norb c' = Inr bs \<and> ftau_column ftau bs = Inr col"
    using ih2 b f by (metis set_ConsD)
  ultimately show ?case by blast
qed

lemma two_operator_loop_trace:
  assumes "two_operator_loop env norb cs s = (Inr (), s')"
  shows "trace s' = trace s @ concat (map (\<lambda>c. [SetProblem None, SolveComponent 1 2 c]) cs)"
  using assms
proof (induction cs arbitrary: s)
  case Nil
  then show ?case by simp
next
  case (Cons c cs)
  let ?s1 = "emit (SetProblem None) s"
  from Cons.prems obtain s2 where
    l: "two_operator_loop env norb cs s2 = (Inr (), s')"
    and t: "trace s2 = trace s @ [SetProblem None, SolveComponent 1 2 c]"
    by (auto simp: Let_def emit_def split: sum.splits option.splits)
  from Cons.IH [OF l] t show ?case by simp
qed

lemma assign_gtau_Inr:
  assumes "assign_gtau g (b1, s1, b2, s2) v = Inr g'"
  shows "\<exists>xs. g' = set_sub g [0, b1, s1, b2, s2] xs \<and> length (shape g) = 6 \<and>
              in_bounds (take 5 (shape g)) [0, b1, s1, b2, s2]"
  using assms by (auto simp: assign_gtau_def split: if_splits sum.splits)

lemma two_operator_loop_gtau:
  assumes "two_operator_loop env norb cs s = (Inr (), s')"
    and "gtau s = Some g0" and "wf_nd g0" and "shape g0 = [d0, d1, d2, d3, d4] @ [L]"
  shows "\<exists>g. gtau s' = Some g \<and> wf_nd g \<and> shape g = shape g0 \<and>
           (\<forall>b1 s1 b2 s2 t.
              in_bounds [d0, d1, d2, d3, d4] [0, b1, s1, b2, s2] \<and> t < L \<and>
              (\<forall>c \<in> set cs. component_bs env norb c \<noteq> Inr (b1, s1, b2, s2)) \<longrightarrow>
              nd_get g ([0, b1, s1, b2, s2] @ [t]) = nd_get g0 ([0, b1, s1, b2, s2] @ [t]))"
  using assms
proof (induction cs arbitrary: s g0)
  case Nil
  then show ?case by simp
next
  case (Cons c cs)
  from Cons.prems(1) obtain s2 bsc v g' where
    l: "two_operator_loop env norb cs (s2\<lparr>gtau := Some g'\<rparr>) = (Inr (), s')"
    and g2: "gtau s2 = gtau s"
    and b: "component_bs env norb c = Inr bsc"
    and a: "assign_gtau (the (gtau s2)) bsc v = Inr g'"
    by (auto simp: Let_def emit_def split: sum.splits option.splits)
  obtain c1 c2 c3 c4 where bsc: "bsc = (c1, c2, c3, c4)" by (cases bsc) auto
  from a g2 Cons.prems(2) have a': "assign_gtau g0 (c1, c2, c3, c4) v = Inr g'"
    by (simp add: bsc)
  from assign_gtau_Inr [OF a'] obtain xs where
    g': "g' = set_sub g0 [0, c1, c2, c3, c4] xs"
    and pb: "in_bounds (take 5 (shape g0)) [0, c1, c2, c3, c4]"
    by blast
  have pb': "in_bounds [d0, d1, d2, d3, d4] [0, c1, c2, c3, c4]"
    using pb Cons.prems(4) by simp
  have len0: "length (data g0) = prod_list (shape g0)"
    using Cons.prems(3) by (simp add: wf_nd_def)
  have wf': "wf_nd g'" using Cons.prems(3) by (simp add: g' wf_nd_def)
  have shp': "shape g' = [d0, d1, d2, d3, d4] @ [L]" using Cons.prems(4) by (simp add: g')
  have gs: "gtau (s2\<lparr>gtau := Some g'\<rparr>) = Some g'" by simp
  from Cons.IH [OF l gs wf' shp'] obtain g where
    r1: "gtau s' = Some g" and r2: "wf_nd g" and r3: "shape g = shape g'"
    and r4: "\<And>b1 s1 b2 s2 t.
              in_bounds [d0, d1, d2, d3, d4] [0, b1, s1, b2, s2] \<and> t < L \<and>
              (\<forall>c \<in> set cs. component_bs env norb c \<noteq> Inr (b1, s1, b2, s2)) \<Longrightarrow>
              nd_get g ([0, b1, s1, b2, s2] @ [t]) = nd_get g' ([0, b1, s1, b2, s2] @ [t])"
    by blast
  have step: "nd_get g ([0, b1, s1, b2, s2] @ [t]) = nd_get g0 ([0, b1, s1, b2, s2] @ [t])"
    if h: "in_bounds [d0, d1, d2, d3, d4] [0, b1, s1, b2, s2] \<and> t < L \<and>
           (\<forall>c' \<in> set (c # cs). component_bs env norb c' \<noteq> Inr (b1, s1, b2, s2))"
    for b1 s1 b2 s2 t
  proof -
    from h b bsc have ne: "[0, b1, s1, b2, s2] \<noteq> [0, c1, c2, c3, c4]" by auto
    have tb: "in_bounds [L] [t]" using h by simp
    have qb: "in_bounds [d0, d1, d2, d3, d4] [0, b1, s1, b2, s2]" using h by simp
    have "nd_get g ([0, b1, s1, b2, s2] @ [t]) = nd_get g' ([0, b1, s1, b2, s2] @ [t])"
      using h by (intro r4) simp
    also have "\<dots> = nd_get g0 ([0, b1, s1, b2, s2] @ [t])"
      unfolding g' set_sub_get [OF len0 Cons.prems(4) pb' qb tb] by (simp only: ne if_False)
    finally show ?thesis .
  qed
  from r1 r2 r3 shp' Cons.prems(4) step show ?case by auto
qed

lemma sorted_range: "sorted_wrt (<) (map int [m..<n])"
  by (simp add: sorted_wrt_map sorted_wrt_upt)

lemma retained_cong:
  "component_bs env norb c = component_bs env norb c' \<Longrightarrow>
   retained env norb ftau c = retained env norb ftau c'"
  by (simp add: retained_def)

lemma retained_iff:
  assumes "component_bs env norb c = Inr (b1, s1, b2, s2)"
    and "ftau_column ftau (b1, s1, b2, s2) = Inr col"
  shows "retained env norb ftau c
           = (\<exists>t < hd (shape ftau). \<bar>nd_get ftau [t, b1, s1, b2, s2]\<bar> > 1 / 100000)"
proof -
  have "retained env norb ftau c = (\<not> all_zeros col)"
    by (simp add: retained_def assms)
  also have "\<dots> = (\<exists>x \<in> set col. \<bar>x\<bar> > 1 / 100000)"
    by (auto simp: all_zeros_iff not_le)
  also have "\<dots> = (\<exists>t < hd (shape ftau). \<bar>nd_get ftau [t, b1, s1, b2, s2]\<bar> > 1 / 100000)"
    unfolding ftau_column_Inr [OF assms(2)] by auto
  finally show ?thesis .
qed


text \<open>
  Claim C2. When the two-operator sector (lines 377-439) completes, the components it
  sampled are the indices 1, ..., (2 * norb) ^ 2 in ascending order without those that
  line 397 prunes: a component with bands and spins (b1, s1, b2, s2) is kept exactly
  when \<^verbatim>\<open>ftau[t, b1, s1, b2, s2]\<close> exceeds 1e-5 in absolute value at some time index,
  so a component that is at most 1e-5 everywhere is pruned. The engine is invoked once
  per retained component, in that order, each time after \<^verbatim>\<open>set_problem\<close>. In the
  assembled array of shape (1, norb, 2, norb, 2, 2 * n_tau), every entry
  [0, b1, s1, b2, s2, t] of a pruned component is exactly zero.
\<close>

theorem two_operator_sector:
  assumes "two_operator env self a norb ftau s = (Inr (), s')"
  shows "\<exists>cs g.
           cs = filter (retained env norb ftau) (map int [1..<(2 * norb) ^ 2 + 1]) \<and>
           sorted_wrt (<) cs \<and>
           (\<forall>c b1 s1 b2 s2.
              c \<in> set (map int [1..<(2 * norb) ^ 2 + 1]) \<and>
              component_bs env norb c = Inr (b1, s1, b2, s2) \<longrightarrow>
              (c \<in> set cs) = (\<exists>t < hd (shape ftau). \<bar>nd_get ftau [t, b1, s1, b2, s2]\<bar> > 1 / 100000)) \<and>
           trace s' = trace s @ concat (map (\<lambda>c. [SetProblem None, SolveComponent 1 2 c]) cs) \<and>
           gtau s' = Some g \<and> shape g = [1, norb, 2, norb, 2, 2 * n_tau self] \<and>
           (\<forall>c b1 s1 b2 s2 t.
              c \<in> set (map int [1..<(2 * norb) ^ 2 + 1]) \<and> c \<notin> set cs \<and>
              component_bs env norb c = Inr (b1, s1, b2, s2) \<and>
              b1 < norb \<and> s1 < 2 \<and> b2 < norb \<and> s2 < 2 \<and> t < 2 * n_tau self \<longrightarrow>
              nd_get g [0, b1, s1, b2, s2, t] = 0)"
proof -
  let ?range = "map int [1..<(2 * norb) ^ 2 + 1]"
  let ?z = "nd_zeros [1, norb, 2, norb, 2, 2 * n_tau self] :: real ndarray"
  let ?s0 = "s\<lparr>gtau := Some ?z\<rparr>"
  from assms obtain cs c where
    wc: "worm_components env norb ftau ?range = Inr cs"
    and l: "two_operator_loop env norb cs (?s0\<lparr>cfg := c\<rparr>) = (Inr (), s')"
    by (auto simp: two_operator_def two_operator_range_def Let_def split: sum.splits)
  from worm_components_filter [OF wc] have
    cs: "cs = filter (retained env norb ftau) ?range"
    and rd: "\<And>c. c \<in> set ?range \<Longrightarrow>
               \<exists>bs col. component_bs env norb c = Inr bs \<and> ftau_column ftau bs = Inr col"
    by blast+
  have srt: "sorted_wrt (<) cs"
    unfolding cs by (rule sorted_wrt_filter [OF sorted_range])
  have chr: "(c \<in> set cs) = (\<exists>t < hd (shape ftau). \<bar>nd_get ftau [t, b1, s1, b2, s2]\<bar> > 1 / 100000)"
    if h: "c \<in> set ?range \<and> component_bs env norb c = Inr (b1, s1, b2, s2)" for c b1 s1 b2 s2
  proof -
    from h rd [of c] obtain col where "ftau_column ftau (b1, s1, b2, s2) = Inr col" by auto
    from retained_iff [OF conjunct2 [OF h] this] h show ?thesis unfolding cs set_filter by blast
  qed
  have tr: "trace s' = trace s @ concat (map (\<lambda>c. [SetProblem None, SolveComponent 1 2 c]) cs)"
    using two_operator_loop_trace [OF l] by simp
  have g0: "gtau (?s0\<lparr>cfg := c\<rparr>) = Some ?z" by simp
  have wfz: "wf_nd ?z" by (simp add: wf_nd_def)
  have shz: "shape ?z = [1, norb, 2, norb, 2] @ [2 * n_tau self]" by simp
  from two_operator_loop_gtau [OF l g0 wfz shz] obtain g where
    g1: "gtau s' = Some g" and g3: "shape g = shape ?z"
    and g4: "\<And>b1 s1 b2 s2 t.
              in_bounds [1, norb, 2, norb, 2] [0, b1, s1, b2, s2] \<and> t < 2 * n_tau self \<and>
              (\<forall>c \<in> set cs. component_bs env norb c \<noteq> Inr (b1, s1, b2, s2)) \<Longrightarrow>
              nd_get g ([0, b1, s1, b2, s2] @ [t]) = nd_get ?z ([0, b1, s1, b2, s2] @ [t])"
    by blast
  have zero: "nd_get g [0, b1, s1, b2, s2, t] = 0"
    if h: "c \<in> set ?range \<and> c \<notin> set cs \<and> component_bs env norb c = Inr (b1, s1, b2, s2) \<and>
           b1 < norb \<and> s1 < 2 \<and> b2 < norb \<and> s2 < 2 \<and> t < 2 * n_tau self"
    for c b1 s1 b2 s2 t
  proof -
    have nr: "\<not> retained env norb ftau c" using h unfolding cs set_filter by blast
    have other: "component_bs env norb c' \<noteq> Inr (b1, s1, b2, s2)" if c': "c' \<in> set cs" for c'
    proof
      assume "component_bs env norb c' = Inr (b1, s1, b2, s2)"
      then have "component_bs env norb c' = component_bs env norb c" using h by simp
      then have "retained env norb ftau c' = retained env norb ftau c" by (rule retained_cong)
      moreover have "retained env norb ftau c'" using c' unfolding cs set_filter by blast
      ultimately show False using nr by simp
    qed
    have "nd_get g ([0, b1, s1, b2, s2] @ [t]) = nd_get ?z ([0, b1, s1, b2, s2] @ [t])"
      using h other by (intro g4) simp
    also have "\<dots> = 0"
      by (rule nd_zeros_get) (use h in simp)
    finally show ?thesis by simp
  qed
  from cs srt chr tr g1 g3 zero show ?thesis by (simp only: shape_nd_zeros) blast
qed

text \<open>
  The theorem at one orbital with a hybridization that is nonzero on the diagonal only:
  components 1 and 4 are sampled, and the entries of component 2 stay zero.
\<close>

theorem two_operator_sector_witness:
  "\<exists>s' g. two_operator (example_env (nd_zeros [2, 1, 2, 1, 2])) example_solver
             ((default_args 1000)\<lparr>worm := True\<rparr>) 1
             \<lparr>shape = [2, 1, 2, 1, 2], data = [1, 0, 0, 1, 1, 0, 0, 1]\<rparr>
             (init_state\<lparr>cfg := \<lparr>General = [], QMC = [(''Nmeas'', IntV 1000)]\<rparr>\<rparr>) = (Inr (), s') \<and>
          trace s' = [SetProblem None, SolveComponent 1 2 1, SetProblem None, SolveComponent 1 2 4] \<and>
          gtau s' = Some g \<and> shape g = [1, 1, 2, 1, 2, 4] \<and>
          nd_get g [0, 0, 0, 0, 1, 3] = 0"
proof -
  let ?env = "example_env (nd_zeros [2, 1, 2, 1, 2])"
  let ?a = "(default_args 1000)\<lparr>worm := True\<rparr>"
  let ?f = "\<lparr>shape = [2, 1, 2, 1, 2], data = [1, 0, 0, 1, 1, 0, 0, 1 :: real]\<rparr>"
  let ?s = "init_state\<lparr>cfg := \<lparr>General = [], QMC = [(''Nmeas'', IntV 1000)]\<rparr>\<rparr>"
  let ?r = "two_operator ?env example_solver ?a 1 ?f ?s"
  have ok: "fst ?r = Inr ()" by code_simp
  then have run: "?r = (Inr (), snd ?r)" by (simp add: prod_eq_iff)
  have cs: "filter (retained ?env 1 ?f) (map int [1..<(2 * 1) ^ 2 + 1]) = [1, 4]" by code_simp
  have c2: "component_bs ?env 1 2 = Inr (0, 0, 0, 1)" by code_simp
  have nt: "n_tau example_solver = 2" by (simp add: example_solver_def)
  from two_operator_sector [OF run] obtain g where
    tr: "trace (snd ?r) = trace ?s @ concat (map (\<lambda>c. [SetProblem None, SolveComponent 1 2 c]) [1, 4])"
    and g: "gtau (snd ?r) = Some g" and sh: "shape g = [1, 1, 2, 1, 2, 2 * n_tau example_solver]"
    and z: "\<And>c b1 s1 b2 s2 t.
              c \<in> set (map int [1..<(2 * 1) ^ 2 + 1]) \<and> c \<notin> set [1, 4 :: int] \<and>
              component_bs ?env 1 c = Inr (b1, s1, b2, s2) \<and>
              b1 < 1 \<and> s1 < 2 \<and> b2 < 1 \<and> s2 < 2 \<and> t < 2 * n_tau example_solver \<Longrightarrow>
              nd_get g [0, b1, s1, b2, s2, t] = 0"
    unfolding cs by blast
  have in_range: "(2 :: int) \<in> set (map int [1..<(2 * 1) ^ 2 + 1])" by code_simp
  have z2: "nd_get g [0, 0, 0, 0, 1, 3] = 0"
    by (rule z [of 2 0 0 0 1 3]) (use in_range c2 nt in simp)
  have tr': "trace (snd ?r) = [SetProblem None, SolveComponent 1 2 1, SetProblem None, SolveComponent 1 2 4]"
    unfolding tr by (simp add: init_state_def)
  have sh': "shape g = [1, 1, 2, 1, 2, 4]" using sh nt by simp
  from run tr' g sh' z2 show ?thesis by blast
qed


section \<open>The budget of the two-operator sector\<close>

lemma two_operator_loop_cfg:
  "two_operator_loop env norb cs s = (r, s') \<Longrightarrow> cfg s' = cfg s"
proof (induction cs arbitrary: s)
  case Nil
  then show ?case by auto
next
  case (Cons c cs)
  show ?case
  proof (cases r)
    case (Inl e)
    with Cons.prems Cons.IH show ?thesis
      by (auto simp: Let_def emit_def split: sum.splits option.splits)
  next
    case (Inr u)
    with Cons.prems Cons.IH show ?thesis
      by (auto simp: Let_def emit_def split: sum.splits option.splits)
  qed
qed

lemma int_of_quotient_zero: "int_of_quotient x 0 \<noteq> Inr n"
  by (simp add: int_of_quotient_def to_float_def float_div_def overflows_def Let_def
        split: sum.splits)

lemma apportion_zero: "apportion W 0 c \<noteq> Inr c'"
  by (auto simp: apportion_def int_of_quotient_zero split: sum.splits)

lemma apportion_cycles:
  assumes "W \<le> 0" and "dict_get (QMC c) ''Nmeas'' = Inr (IntV T)"
    and "0 \<le> T" and "T < 2 ^ 53" and "0 < C" and "C < 2 ^ 53"
  shows "apportion W C c = Inr (set_QMC ''Nmeas'' (IntV (T div int C)) c)"
proof -
  have "real_of_int T < real_of_int (2 ^ 53)" using assms(4) by (simp only: of_int_less_iff)
  then have t: "real_of_int T < 2 ^ 53" by simp
  have "int_of_quotient (of_int T) C = Inr \<lfloor>real_of_int T / real C\<rfloor>"
    using assms(3) t assms(5,6) by (intro int_of_quotient_exact) (simp_all add: round_double_of_int)
  moreover have "\<lfloor>real_of_int T / real C\<rfloor> = T div int C"
    using floor_divide_of_int_eq [of T "int C", where ?'a = real] by simp
  ultimately show ?thesis using assms(1,2) by (simp add: apportion_def)
qed

lemma apportion_time:
  assumes "0 < W" and "round_double W = W" and "W < 2 ^ 53" and "0 < C" and "C < 2 ^ 53"
  shows "apportion W C c = Inr (set_QMC ''measurement_time'' (IntV \<lfloor>W / real C\<rfloor>) c)"
proof -
  have "int_of_quotient W C = Inr \<lfloor>W / real C\<rfloor>"
    using assms by (intro int_of_quotient_exact) simp_all
  then show ?thesis using assms(1) by (simp add: apportion_def)
qed


text \<open>
  Claim C3, as the code has it. Let the two-operator sector complete with C retained
  components. Then C is at least 1, and lines 405-409 give every component the budget
  \<^verbatim>\<open>int(x / float(C))\<close>, a division of binary64 numbers. Without a time budget
  (\<^verbatim>\<open>max_time <= 0\<close>) and with a cycle count T below \<open>2 ^ 53\<close>, each component gets
  \<^verbatim>\<open>Nmeas\<close> = T div C cycles, in total (T div C) * C, at most T. With a time budget W
  that is a binary64 number below \<open>2 ^ 53\<close>, each component gets
  \<^verbatim>\<open>measurement_time\<close> = floor (W / C). The configuration is otherwise unchanged, it
  is the one every invocation of the sector sees, and the sector invokes the engine
  once per retained component.
\<close>

theorem two_operator_budget:
  assumes run: "two_operator env self a norb ftau s = (Inr (), s')"
    and C: "C = length (filter (retained env norb ftau) (two_operator_range norb))"
  shows "0 < C \<and>
         (max_time a \<le> 0 \<and> dict_get (QMC (cfg s)) ''Nmeas'' = Inr (IntV T) \<and>
          0 \<le> T \<and> T < 2 ^ 53 \<and> C < 2 ^ 53 \<longrightarrow>
            cfg s' = set_QMC ''Nmeas'' (IntV (T div int C)) (cfg s) \<and> (T div int C) * int C \<le> T) \<and>
         (0 < max_time a \<and> round_double (max_time a) = max_time a \<and>
          max_time a < 2 ^ 53 \<and> C < 2 ^ 53 \<longrightarrow>
            cfg s' = set_QMC ''measurement_time'' (IntV \<lfloor>max_time a / real C\<rfloor>) (cfg s)) \<and>
         trace s' = trace s @ concat (map (\<lambda>c. [SetProblem None, SolveComponent 1 2 c])
                      (filter (retained env norb ftau) (two_operator_range norb)))"
proof -
  let ?s0 = "s\<lparr>gtau := Some (nd_zeros [1, norb, 2, norb, 2, 2 * n_tau self])\<rparr>"
  from run obtain cs c where
    wc: "worm_components env norb ftau (two_operator_range norb) = Inr cs"
    and ap: "apportion (max_time a) (length cs) (cfg s) = Inr c"
    and l: "two_operator_loop env norb cs (?s0\<lparr>cfg := c\<rparr>) = (Inr (), s')"
    by (auto simp: two_operator_def Let_def split: sum.splits)
  from worm_components_filter [OF wc] have
    cs: "cs = filter (retained env norb ftau) (two_operator_range norb)" by blast
  have len: "length cs = C" by (simp add: C cs)
  have c': "cfg s' = c" using two_operator_loop_cfg [OF l] by simp
  have pos: "0 < C"
  proof (rule ccontr)
    assume "\<not> 0 < C"
    then have "length cs = 0" using len by simp
    with ap apportion_zero show False by metis
  qed
  have cyc: "cfg s' = set_QMC ''Nmeas'' (IntV (T div int C)) (cfg s) \<and> (T div int C) * int C \<le> T"
    if h: "max_time a \<le> 0 \<and> dict_get (QMC (cfg s)) ''Nmeas'' = Inr (IntV T) \<and>
           0 \<le> T \<and> T < 2 ^ 53 \<and> C < 2 ^ 53"
  proof -
    have "apportion (max_time a) C (cfg s) = Inr (set_QMC ''Nmeas'' (IntV (T div int C)) (cfg s))"
      using h pos by (intro apportion_cycles) simp_all
    with ap len have "c = set_QMC ''Nmeas'' (IntV (T div int C)) (cfg s)" by simp
    moreover have "(T div int C) * int C \<le> T"
      using div_mult_mod_eq [of T "int C"] pos pos_mod_sign [of "int C" T] by linarith
    ultimately show ?thesis using c' by simp
  qed
  have tim: "cfg s' = set_QMC ''measurement_time'' (IntV \<lfloor>max_time a / real C\<rfloor>) (cfg s)"
    if h: "0 < max_time a \<and> round_double (max_time a) = max_time a \<and>
           max_time a < 2 ^ 53 \<and> C < 2 ^ 53"
  proof -
    have "apportion (max_time a) C (cfg s)
            = Inr (set_QMC ''measurement_time'' (IntV \<lfloor>max_time a / real C\<rfloor>) (cfg s))"
      using h pos by (intro apportion_time) simp_all
    with ap len c' show ?thesis by simp
  qed
  have tr: "trace s' = trace s @ concat (map (\<lambda>c. [SetProblem None, SolveComponent 1 2 c])
                      (filter (retained env norb ftau) (two_operator_range norb)))"
    using two_operator_loop_trace [OF l] by (simp add: cs)
  from pos cyc tim tr show ?thesis by blast
qed


text \<open>
  The theorem at one orbital with the components 1 and 4 retained: 1000 cycles give
  500 to each component, and a budget of 7 seconds gives 3 to each.
\<close>

theorem two_operator_budget_witness:
  "(\<exists>s'. two_operator (example_env example_ftau_diagonal) example_solver
            ((default_args 1000)\<lparr>worm := True\<rparr>) 1 (nd_real example_ftau_diagonal)
            (init_state\<lparr>cfg := \<lparr>General = [], QMC = [(''Nmeas'', IntV 1000)]\<rparr>\<rparr>) = (Inr (), s') \<and>
          cfg s' = \<lparr>General = [], QMC = [(''Nmeas'', IntV 500)]\<rparr> \<and>
          trace s' = [SetProblem None, SolveComponent 1 2 1, SetProblem None, SolveComponent 1 2 4]) \<and>
   (\<exists>s'. two_operator (example_env example_ftau_diagonal) example_solver
            ((default_args 1000)\<lparr>worm := True, max_time := 7\<rparr>) 1 (nd_real example_ftau_diagonal)
            (init_state\<lparr>cfg := \<lparr>General = [], QMC = [(''Nmeas'', IntV 1000)]\<rparr>\<rparr>) = (Inr (), s') \<and>
          cfg s' = \<lparr>General = [], QMC = [(''Nmeas'', IntV 1000), (''measurement_time'', IntV 3)]\<rparr> \<and>
          trace s' = [SetProblem None, SolveComponent 1 2 1, SetProblem None, SolveComponent 1 2 4])"
proof -
  let ?env = "example_env example_ftau_diagonal"
  let ?f = "nd_real example_ftau_diagonal"
  let ?a = "(default_args 1000)\<lparr>worm := True\<rparr>"
  let ?b = "(default_args 1000)\<lparr>worm := True, max_time := 7\<rparr>"
  let ?s = "init_state\<lparr>cfg := \<lparr>General = [], QMC = [(''Nmeas'', IntV 1000)]\<rparr>\<rparr>"
  let ?r = "two_operator ?env example_solver ?a 1 ?f ?s"
  let ?q = "two_operator ?env example_solver ?b 1 ?f ?s"
  have cs: "filter (retained ?env 1 ?f) (two_operator_range 1) = [1, 4]" by code_simp
  then have C: "2 = length (filter (retained ?env 1 ?f) (two_operator_range 1))" by simp
  have tr0: "trace ?s = []" by (simp add: init_state_def)
  have c0: "cfg ?s = \<lparr>General = [], QMC = [(''Nmeas'', IntV 1000)]\<rparr>" by simp
  have nm: "dict_get (QMC (cfg ?s)) ''Nmeas'' = Inr (IntV 1000)" by (simp add: dict_get_def)
  have "fst ?r = Inr ()" by code_simp
  then have run1: "?r = (Inr (), snd ?r)" by (simp add: prod_eq_iff)
  have "fst ?q = Inr ()" by code_simp
  then have run2: "?q = (Inr (), snd ?q)" by (simp add: prod_eq_iff)
  have m1: "max_time ?a \<le> 0" by (simp add: default_args_def)
  have m2: "0 < max_time ?b" "max_time ?b < 2 ^ 53" by simp_all
  have m3: "round_double (max_time ?b) = max_time ?b"
    using round_double_of_int [of 7] by simp
  have fl: "\<lfloor>7 / 2 :: real\<rfloor> = 3" by simp
  from two_operator_budget [OF run1 C, of 1000] m1 nm
  have "cfg (snd ?r) = set_QMC ''Nmeas'' (IntV (1000 div int 2)) (cfg ?s)"
    and t1: "trace (snd ?r) = trace ?s @ concat (map (\<lambda>c. [SetProblem None, SolveComponent 1 2 c])
                      (filter (retained ?env 1 ?f) (two_operator_range 1)))"
    by simp_all
  then have c1: "cfg (snd ?r) = \<lparr>General = [], QMC = [(''Nmeas'', IntV 500)]\<rparr>"
    unfolding c0 by (simp add: set_QMC_def)
  from two_operator_budget [OF run2 C, of 1000] m2 m3
  have "cfg (snd ?q) = set_QMC ''measurement_time'' (IntV \<lfloor>max_time ?b / real 2\<rfloor>) (cfg ?s)"
    and t2: "trace (snd ?q) = trace ?s @ concat (map (\<lambda>c. [SetProblem None, SolveComponent 1 2 c])
                      (filter (retained ?env 1 ?f) (two_operator_range 1)))"
    by simp_all
  then have c2: "cfg (snd ?q)
                   = \<lparr>General = [], QMC = [(''Nmeas'', IntV 1000), (''measurement_time'', IntV 3)]\<rparr>"
    unfolding c0 using fl by (simp add: set_QMC_def)
  have t1': "trace (snd ?r)
               = [SetProblem None, SolveComponent 1 2 1, SetProblem None, SolveComponent 1 2 4]"
    unfolding t1 cs tr0 by simp
  have t2': "trace (snd ?q)
               = [SetProblem None, SolveComponent 1 2 1, SetProblem None, SolveComponent 1 2 4]"
    unfolding t2 cs tr0 by simp
  from run1 c1 t1' have "\<exists>s'. ?r = (Inr (), s') \<and>
          cfg s' = \<lparr>General = [], QMC = [(''Nmeas'', IntV 500)]\<rparr> \<and>
          trace s' = [SetProblem None, SolveComponent 1 2 1, SetProblem None, SolveComponent 1 2 4]"
    by blast
  moreover from run2 c2 t2' have "\<exists>s'. ?q = (Inr (), s') \<and>
          cfg s' = \<lparr>General = [], QMC = [(''Nmeas'', IntV 1000), (''measurement_time'', IntV 3)]\<rparr> \<and>
          trace s' = [SetProblem None, SolveComponent 1 2 1, SetProblem None, SolveComponent 1 2 4]"
    by blast
  ultimately show ?thesis by (rule conjI)
qed


text \<open>
  Against claim C3 as stated. A call with \<^verbatim>\<open>n_cycles\<close> = \<open>2 ^ 53 + 3\<close> and two retained
  components: the division of line 407 first rounds the count to the binary64 number
  \<open>2 ^ 53 + 4\<close> and gives each component 4503599627370498 cycles, one more than
  floor (T / 2), in total more than T. A call with \<^verbatim>\<open>max_time\<close> = 13510798882111490
  and three retained components: the quotient of line 409 is rounded up to the next
  binary64 number and each component receives 4503599627370497 seconds, one more than
  floor (W / 3).
\<close>

theorem two_operator_budget_rounding_counterexample:
  "dict_get (QMC (cfg (snd (solve (example_env example_ftau_diagonal) example_solver
      ((default_args 9007199254740995)\<lparr>worm := True\<rparr>) example_problem)))) ''Nmeas''
     = Inr (IntV 4503599627370498) \<and>
   length (filter (retained (example_env example_ftau_diagonal) 1 (nd_real example_ftau_diagonal))
      (two_operator_range 1)) = 2 \<and>
   9007199254740995 div 2 = (4503599627370497 :: int) \<and>
   (9007199254740995 :: int) < 4503599627370498 * 2 \<and>
   dict_get (QMC (cfg (snd (solve (example_env example_ftau_three) example_solver
      ((default_args 1000)\<lparr>worm := True, max_time := 13510798882111490\<rparr>) example_problem))))
      ''measurement_time''
     = Inr (IntV 4503599627370497) \<and>
   length (filter (retained (example_env example_ftau_three) 1 (nd_real example_ftau_three))
      (two_operator_range 1)) = 3 \<and>
   \<lfloor>13510798882111490 / 3 :: real\<rfloor> = 4503599627370496"
  by code_simp

end
